theory Spec2Isabelle
  imports Main "HOL-Library.AList"
begin

section \<open>JavaScript values and property access\<close>

text \<open>
  Message payloads are untyped (\<^verbatim>\<open>unknown\<close>) in the source, so they are modelled as
  JavaScript values. Numbers are never inspected by the code under study; they are kept
  as integers. An object is the list of its own enumerable properties.
\<close>

datatype jsval =
    JUndefined
  | JNull
  | JBool bool
  | JNum int
  | JStr string
  | JArr "jsval list"
  | JObj "(string \<times> jsval) list"

datatype js_error = TypeError

definition bind_result :: "'e + 'a \<Rightarrow> ('a \<Rightarrow> 'e + 'b) \<Rightarrow> 'e + 'b" where
  "bind_result r f = (case r of Inl e \<Rightarrow> Inl e | Inr v \<Rightarrow> f v)"

text \<open>
  \<^verbatim>\<open>v.p\<close>: reading a property of \<^verbatim>\<open>undefined\<close> or \<^verbatim>\<open>null\<close> throws a TypeError; a
  primitive or an array has none of the property names read here
  (\<^verbatim>\<open>type\<close>, \<^verbatim>\<open>content\<close>, \<^verbatim>\<open>data\<close>, \<^verbatim>\<open>message\<close>), so the read gives \<^verbatim>\<open>undefined\<close>.
\<close>

fun getProp :: "jsval \<Rightarrow> string \<Rightarrow> js_error + jsval" where
  "getProp JUndefined p = Inl TypeError"
| "getProp JNull p = Inl TypeError"
| "getProp (JObj ps) p = Inr (case map_of ps p of None \<Rightarrow> JUndefined | Some v \<Rightarrow> v)"
| "getProp v p = Inr JUndefined"

text \<open>\<^verbatim>\<open>v?.p\<close>: optional chaining short-circuits to \<^verbatim>\<open>undefined\<close> on a nullish receiver.\<close>

fun optChain :: "jsval \<Rightarrow> string \<Rightarrow> js_error + jsval" where
  "optChain JUndefined p = Inr JUndefined"
| "optChain JNull p = Inr JUndefined"
| "optChain v p = getProp v p"

text \<open>\<^verbatim>\<open>a ?? b\<close>: the right operand replaces a nullish left operand only.\<close>

fun nullish :: "jsval \<Rightarrow> bool" where
  "nullish JUndefined = True"
| "nullish JNull = True"
| "nullish v = False"

definition coalesce :: "jsval \<Rightarrow> jsval \<Rightarrow> jsval" where
  "coalesce a b = (if nullish a then b else a)"

text \<open>
  \<^verbatim>\<open>isObject(value) = Boolean(value) && typeof value === 'object'\<close>:
  \<^verbatim>\<open>typeof null\<close> is \<^verbatim>\<open>'object'\<close> but \<^verbatim>\<open>null\<close> is falsy; arrays are objects.
\<close>

fun isObject :: "jsval \<Rightarrow> bool" where
  "isObject (JObj ps) = True"
| "isObject (JArr xs) = True"
| "isObject v = False"

section \<open>Event parsing\<close>

text \<open>
  \<^verbatim>\<open>extractEventEnvelope(message)\<close>: the message itself when its \<^verbatim>\<open>type\<close> is
  \<^verbatim>\<open>'event'\<close>, else its \<^verbatim>\<open>content\<close> when that is an object of \<^verbatim>\<open>type\<close> \<^verbatim>\<open>'event'\<close>,
  else \<^verbatim>\<open>null\<close> (here \<open>None\<close>).
\<close>

definition extractEventEnvelope :: "jsval \<Rightarrow> js_error + jsval option" where
  "extractEventEnvelope message =
     (if \<not> isObject message then Inr None
      else bind_result (getProp message ''type'') (\<lambda>t.
        if t = JStr ''event'' then Inr (Some message)
        else bind_result (getProp message ''content'') (\<lambda>content.
          if \<not> isObject content then Inr None
          else bind_result (getProp content ''type'') (\<lambda>ct.
            if ct \<noteq> JStr ''event'' then Inr None
            else Inr (Some content)))))"

text \<open>
  \<^verbatim>\<open>extractMessageEventType(event)\<close> of \<^verbatim>\<open>hub/src/notifications/eventParsing.ts\<close>. The
  parameter has the object type \<^verbatim>\<open>SyncEvent\<close>, so the event is given by its properties.
\<close>

definition extractMessageEventType :: "(string \<times> jsval) list \<Rightarrow> js_error + string option" where
  "extractMessageEventType event =
     bind_result (getProp (JObj event) ''type'') (\<lambda>t.
       if t \<noteq> JStr ''message-received'' then Inr None
       else bind_result (getProp (JObj event) ''message'') (\<lambda>m.
         bind_result (optChain m ''content'') (\<lambda>message.
           bind_result (extractEventEnvelope message) (\<lambda>envelope.
             case envelope of
               None \<Rightarrow> Inr None
             | Some env \<Rightarrow>
                 bind_result (getProp env ''data'') (\<lambda>d.
                   let data = (if isObject d then d else JNull) in
                   bind_result (optChain data ''type'') (\<lambda>eventType.
                     Inr (case eventType of JStr s \<Rightarrow> Some s | _ \<Rightarrow> None)))))))"

text \<open>
  The near-duplicate variant, which reads the message as
  \<^verbatim>\<open>event.message?.content ?? event.data\<close>; the right operand is evaluated only when the
  left one is nullish.
\<close>

definition extractMessageEventType_fallback :: "(string \<times> jsval) list \<Rightarrow> js_error + string option" where
  "extractMessageEventType_fallback event =
     bind_result (getProp (JObj event) ''type'') (\<lambda>t.
       if t \<noteq> JStr ''message-received'' then Inr None
       else bind_result (getProp (JObj event) ''message'') (\<lambda>m.
         bind_result (optChain m ''content'') (\<lambda>c.
           bind_result (if nullish c then getProp (JObj event) ''data'' else Inr c) (\<lambda>message.
             bind_result (extractEventEnvelope message) (\<lambda>envelope.
               case envelope of
                 None \<Rightarrow> Inr None
               | Some env \<Rightarrow>
                   bind_result (getProp env ''data'') (\<lambda>d.
                     let data = (if isObject d then d else JNull) in
                     bind_result (optChain data ''type'') (\<lambda>eventType.
                       Inr (case eventType of JStr s \<Rightarrow> Some s | _ \<Rightarrow> None))))))))"

text \<open>
  The vocabulary of the specification of event parsing: a total property read
  (\<^verbatim>\<open>undefined\<close> for an absent property), the envelope shape \<^verbatim>\<open>{type: 'event', data}\<close>,
  the message content carried by an event, and the envelope a content holds: itself, or
  else the \<^verbatim>\<open>content\<close> of a wrapping message. The wrapping message is recognised by its
  \<^verbatim>\<open>content\<close> property alone; its \<^verbatim>\<open>role\<close> is not inspected.
\<close>

definition field :: "jsval \<Rightarrow> string \<Rightarrow> jsval" where
  "field v p = (case v of
       JObj ps \<Rightarrow> (case map_of ps p of None \<Rightarrow> JUndefined | Some x \<Rightarrow> x)
     | _ \<Rightarrow> JUndefined)"

definition is_event_envelope :: "jsval \<Rightarrow> bool" where
  "is_event_envelope v = (isObject v \<and> field v ''type'' = JStr ''event'')"

definition message_content :: "(string \<times> jsval) list \<Rightarrow> jsval" where
  "message_content event = field (field (JObj event) ''message'') ''content''"

definition envelope_of_content :: "jsval \<Rightarrow> jsval option" where
  "envelope_of_content c =
     (if is_event_envelope c then Some c
      else if isObject c \<and> is_event_envelope (field c ''content'') then Some (field c ''content'')
      else None)"

definition envelope_data_type :: "jsval \<Rightarrow> string option" where
  "envelope_data_type env =
     (if isObject (field env ''data'')
      then (case field (field env ''data'') ''type'' of JStr s \<Rightarrow> Some s | _ \<Rightarrow> None)
      else None)"

text \<open>The events of the repository's test of event parsing, and one that has only a
  top-level \<^verbatim>\<open>data\<close> envelope.\<close>

definition ready_envelope :: jsval where
  "ready_envelope =
     JObj [(''id'', JStr ''event-1''), (''type'', JStr ''event''),
           (''data'', JObj [(''type'', JStr ''ready'')])]"

definition wrapped_ready_event :: "(string \<times> jsval) list" where
  "wrapped_ready_event =
     [(''type'', JStr ''message-received''), (''sessionId'', JStr ''session-1''),
      (''message'', JObj [(''id'', JStr ''message-1''), (''seq'', JNum 1), (''localId'', JNull),
         (''createdAt'', JNum 0),
         (''content'', JObj [(''role'', JStr ''agent''), (''content'', ready_envelope)])])]"

definition direct_ready_event :: "(string \<times> jsval) list" where
  "direct_ready_event =
     [(''type'', JStr ''message-received''), (''sessionId'', JStr ''session-1''),
      (''message'', JObj [(''id'', JStr ''message-2''), (''seq'', JNum 2), (''localId'', JNull),
         (''createdAt'', JNum 0),
         (''content'', JObj [(''type'', JStr ''event''), (''data'', JObj [(''type'', JStr ''ready'')])])])]"

definition text_message_event :: "(string \<times> jsval) list" where
  "text_message_event =
     [(''type'', JStr ''message-received''), (''sessionId'', JStr ''session-1''),
      (''message'', JObj [(''id'', JStr ''message-3''), (''seq'', JNum 3), (''localId'', JNull),
         (''createdAt'', JNum 0),
         (''content'', JObj [(''role'', JStr ''agent''),
            (''content'', JObj [(''type'', JStr ''text''), (''text'', JStr ''hello'')])])])]"

definition session_updated_event :: "(string \<times> jsval) list" where
  "session_updated_event = [(''type'', JStr ''session-updated''), (''sessionId'', JStr ''session-1'')]"

definition top_level_data_event :: "(string \<times> jsval) list" where
  "top_level_data_event =
     [(''type'', JStr ''message-received''), (''sessionId'', JStr ''session-1''),
      (''data'', JObj [(''type'', JStr ''event''), (''data'', JObj [(''type'', JStr ''ready'')])])]"

section \<open>The message store\<close>

text \<open>
  A row of table \<^verbatim>\<open>messages\<close> (\<^verbatim>\<open>DbMessageRow\<close>; column \<^verbatim>\<open>id\<close> is \<open>row_id\<close> here) and the
  message handed to callers (\<^verbatim>\<open>StoredMessage\<close>, fields prefixed \<open>msg_\<close>).
\<close>

record DbMessageRow =
  row_id :: string
  session_id :: string
  content :: string
  created_at :: int
  seq :: int
  local_id :: "string option"

record StoredMessage =
  msg_id :: string
  msg_sessionId :: string
  msg_content :: jsval
  msg_createdAt :: int
  msg_seq :: int
  msg_localId :: "string option"

text \<open>
  The database: the ids of the rows of table \<^verbatim>\<open>sessions\<close>, the rows of table
  \<^verbatim>\<open>messages\<close> in rowid order, and, while a transaction is open, the rows as they were
  at its \<^verbatim>\<open>BEGIN\<close>.
\<close>

record database =
  sessions :: "string list"
  messages :: "DbMessageRow list"
  snapshot :: "DbMessageRow list option"

datatype db_error =
    ConstraintFailed
  | NoActiveTransaction
  | TransactionWithinTransaction
  | StatementFailed
  | FailedToCreateMessage

text \<open>
  A database call returns a value or throws, and leaves a database behind either way.
\<close>

type_synonym 'a db_call = "database \<Rightarrow> (db_error + 'a) \<times> database"

definition db_return :: "'a \<Rightarrow> 'a db_call" where
  "db_return v db = (Inr v, db)"

definition db_bind :: "'a db_call \<Rightarrow> ('a \<Rightarrow> 'b db_call) \<Rightarrow> 'b db_call" where
  "db_bind m f db = (case m db of (Inl e, db') \<Rightarrow> (Inl e, db') | (Inr v, db') \<Rightarrow> f v db')"

text \<open>
  The schema's unique index \<^verbatim>\<open>idx_messages_local_id\<close> on
  \<^verbatim>\<open>(session_id, local_id) WHERE local_id IS NOT NULL\<close>.
\<close>

definition local_id_key :: "DbMessageRow \<Rightarrow> string \<times> string option" where
  "local_id_key r = (session_id r, local_id r)"

definition unique_local_ids :: "DbMessageRow list \<Rightarrow> bool" where
  "unique_local_ids rows = distinct (map local_id_key (filter (\<lambda>r. local_id r \<noteq> None) rows))"

definition toStoredMessage :: "(string \<Rightarrow> jsval) \<Rightarrow> DbMessageRow \<Rightarrow> StoredMessage" where
  "toStoredMessage safeJsonParse row =
     \<lparr>msg_id = row_id row, msg_sessionId = session_id row,
      msg_content = safeJsonParse (content row), msg_createdAt = created_at row,
      msg_seq = seq row, msg_localId = local_id row\<rparr>"

text \<open>\<^verbatim>\<open>SELECT COALESCE(MAX(seq), 0) AS maxSeq FROM messages WHERE session_id = ?\<close>\<close>

definition getMaxSeq :: "database \<Rightarrow> string \<Rightarrow> int" where
  "getMaxSeq db sessionId =
     (let seqs = map seq (filter (\<lambda>r. session_id r = sessionId) (messages db))
      in if seqs = [] then 0 else Max (set seqs))"

text \<open>
  \<^verbatim>\<open>JSON.stringify(content)\<close>: \<^verbatim>\<open>undefined\<close> for \<^verbatim>\<open>undefined\<close>, and a text for every other
  value (functions and symbols, for which there is no text either, are no values here);
  the parameter gives the text.
\<close>

definition json_stringify :: "(jsval \<Rightarrow> string) \<Rightarrow> jsval \<Rightarrow> string option" where
  "json_stringify stringify v = (if v = JUndefined then None else Some (stringify v))"

text \<open>
  \<^verbatim>\<open>INSERT INTO messages\<close> with the values bound: refused when the content is missing
  (column \<^verbatim>\<open>content\<close> is \<^verbatim>\<open>TEXT NOT NULL\<close>), when the primary key \<^verbatim>\<open>id\<close> is taken, when the
  foreign key \<^verbatim>\<open>session_id\<close> names no session (\<^verbatim>\<open>PRAGMA foreign_keys = ON\<close>), or when the
  unique index on \<^verbatim>\<open>(session_id, local_id)\<close> already holds the pair. A statement that is
  refused changes nothing.
\<close>

definition insert_message ::
  "string \<Rightarrow> string \<Rightarrow> string option \<Rightarrow> int \<Rightarrow> int \<Rightarrow> string option \<Rightarrow> unit db_call" where
  "insert_message uuid sessionId json createdAt msgSeq localId db =
     (case json of
        None \<Rightarrow> (Inl ConstraintFailed, db)
      | Some body \<Rightarrow>
          if uuid \<in> set (map row_id (messages db)) then (Inl ConstraintFailed, db)
          else if sessionId \<notin> set (sessions db) then (Inl ConstraintFailed, db)
          else if localId \<noteq> None
                  \<and> (sessionId, localId) \<in> set (map local_id_key (messages db))
               then (Inl ConstraintFailed, db)
          else (Inr (), db\<lparr>messages := messages db @
                  [\<lparr>row_id = uuid, session_id = sessionId, content = body,
                    created_at = createdAt, seq = msgSeq, local_id = localId\<rparr>]\<rparr>))"

text \<open>
  \<^verbatim>\<open>addMessage(db, sessionId, content, localId?)\<close>. The clock reading \<^verbatim>\<open>Date.now()\<close>, the
  fresh \<^verbatim>\<open>randomUUID()\<close>, the function \<^verbatim>\<open>safeJsonParse\<close> and the text that
  \<^verbatim>\<open>JSON.stringify\<close> gives are parameters. \<^verbatim>\<open>if (localId)\<close> holds for a non-empty string
  only; \<^verbatim>\<open>localId ?? null\<close> stores an empty string as it is.
\<close>

definition addMessage ::
  "(string \<Rightarrow> jsval) \<Rightarrow> (jsval \<Rightarrow> string) \<Rightarrow> int \<Rightarrow> string
     \<Rightarrow> string \<Rightarrow> jsval \<Rightarrow> string option \<Rightarrow> StoredMessage db_call" where
  "addMessage safeJsonParse stringify now uuid sessionId cont localId db =
     (case (if localId \<noteq> None \<and> localId \<noteq> Some []
            then find (\<lambda>r. session_id r = sessionId \<and> local_id r = localId) (messages db)
            else None) of
        Some existing \<Rightarrow> (Inr (toStoredMessage safeJsonParse existing), db)
      | None \<Rightarrow>
          (let msgSeq = getMaxSeq db sessionId + 1;
               json = json_stringify stringify cont
           in db_bind (insert_message uuid sessionId json now msgSeq localId) (\<lambda>_ db'.
                case find (\<lambda>r. row_id r = uuid) (messages db') of
                  None \<Rightarrow> (Inl FailedToCreateMessage, db')
                | Some r \<Rightarrow> (Inr (toStoredMessage safeJsonParse r), db')) db))"

text \<open>
  The statements of \<^verbatim>\<open>mergeSessionMessages\<close>, in the order of the source. Any of them
  may fail for a reason outside the model (a busy or full database): the first argument
  names the statement that is made to fail, if any. A statement that fails changes
  nothing.
\<close>

datatype merge_step =
    AtGetMaxSeq | AtBegin | AtShiftSeq | AtSelectCollisions | AtClearLocalIds
  | AtReassign | AtCommit

definition exec_begin :: "merge_step option \<Rightarrow> unit db_call" where
  "exec_begin fault db =
     (if fault = Some AtBegin then (Inl StatementFailed, db)
      else if snapshot db \<noteq> None then (Inl TransactionWithinTransaction, db)
      else (Inr (), db\<lparr>snapshot := Some (messages db)\<rparr>))"

definition exec_commit :: "merge_step option \<Rightarrow> unit db_call" where
  "exec_commit fault db =
     (if fault = Some AtCommit then (Inl StatementFailed, db)
      else if snapshot db = None then (Inl NoActiveTransaction, db)
      else (Inr (), db\<lparr>snapshot := None\<rparr>))"

definition exec_rollback :: "unit db_call" where
  "exec_rollback db =
     (case snapshot db of
        None \<Rightarrow> (Inl NoActiveTransaction, db)
      | Some old \<Rightarrow> (Inr (), db\<lparr>messages := old, snapshot := None\<rparr>))"

text \<open>\<^verbatim>\<open>UPDATE messages SET seq = seq + ? WHERE session_id = ?\<close>\<close>

definition shift_seq :: "merge_step option \<Rightarrow> int \<Rightarrow> string \<Rightarrow> unit db_call" where
  "shift_seq fault k sessionId db =
     (if fault = Some AtShiftSeq then (Inl StatementFailed, db)
      else (Inr (), db\<lparr>messages :=
              map (\<lambda>r. if session_id r = sessionId then r\<lparr>seq := seq r + k\<rparr> else r)
                (messages db)\<rparr>))"

text \<open>
  \<^verbatim>\<open>SELECT local_id FROM messages WHERE session_id = ? AND local_id IS NOT NULL
  INTERSECT SELECT local_id ... WHERE session_id = ? AND local_id IS NOT NULL\<close>
\<close>

definition session_local_ids :: "DbMessageRow list \<Rightarrow> string \<Rightarrow> string list" where
  "session_local_ids rows sessionId =
     concat (map (\<lambda>r. case local_id r of None \<Rightarrow> [] | Some l \<Rightarrow> [l])
       (filter (\<lambda>r. session_id r = sessionId) rows))"

definition select_collisions :: "merge_step option \<Rightarrow> string \<Rightarrow> string \<Rightarrow> string list db_call" where
  "select_collisions fault toSessionId fromSessionId db =
     (if fault = Some AtSelectCollisions then (Inl StatementFailed, db)
      else (Inr (remdups (filter (\<lambda>l. l \<in> set (session_local_ids (messages db) fromSessionId))
                           (session_local_ids (messages db) toSessionId))), db))"

text \<open>\<^verbatim>\<open>UPDATE messages SET local_id = NULL WHERE session_id = ? AND local_id IN (...)\<close>\<close>

definition clear_local_ids :: "merge_step option \<Rightarrow> string \<Rightarrow> string list \<Rightarrow> unit db_call" where
  "clear_local_ids fault sessionId localIds db =
     (if fault = Some AtClearLocalIds then (Inl StatementFailed, db)
      else (Inr (), db\<lparr>messages :=
              map (\<lambda>r. if session_id r = sessionId \<and> local_id r \<in> Some ` set localIds
                        then r\<lparr>local_id := None\<rparr> else r)
                (messages db)\<rparr>))"

text \<open>
  \<^verbatim>\<open>UPDATE messages SET session_id = ? WHERE session_id = ?\<close>, giving the number of rows
  changed. It is refused when it changes a row and the new session id names no session,
  or when the rows would break the unique index on \<^verbatim>\<open>(session_id, local_id)\<close>.
\<close>

definition reassign_session :: "merge_step option \<Rightarrow> string \<Rightarrow> string \<Rightarrow> nat db_call" where
  "reassign_session fault toSessionId fromSessionId db =
     (let changed = filter (\<lambda>r. session_id r = fromSessionId) (messages db);
          rows = map (\<lambda>r. if session_id r = fromSessionId
                            then r\<lparr>session_id := toSessionId\<rparr> else r) (messages db)
      in if fault = Some AtReassign then (Inl StatementFailed, db)
         else if changed \<noteq> [] \<and> toSessionId \<notin> set (sessions db) then (Inl ConstraintFailed, db)
         else if \<not> unique_local_ids rows then (Inl ConstraintFailed, db)
         else (Inr (length changed), db\<lparr>messages := rows\<rparr>))"

record merge_result =
  moved :: nat
  oldMaxSeq :: int
  newMaxSeq :: int

text \<open>
  \<^verbatim>\<open>mergeSessionMessages(db, fromSessionId, toSessionId)\<close>: the body of the \<^verbatim>\<open>try\<close> block,
  and the function with its \<^verbatim>\<open>catch\<close>, which rolls back and throws the error again (or
  the error of \<^verbatim>\<open>ROLLBACK\<close> itself, when that throws).
\<close>

definition merge_transaction ::
  "merge_step option \<Rightarrow> string \<Rightarrow> string \<Rightarrow> int \<Rightarrow> int \<Rightarrow> merge_result db_call" where
  "merge_transaction fault fromSessionId toSessionId oldMax newMax =
     db_bind (exec_begin fault) (\<lambda>_.
     db_bind (if newMax > 0 \<and> oldMax > 0 then shift_seq fault oldMax toSessionId
              else db_return ()) (\<lambda>_.
     db_bind (select_collisions fault toSessionId fromSessionId) (\<lambda>collisions.
     db_bind (if length collisions > 0 then clear_local_ids fault fromSessionId collisions
              else db_return ()) (\<lambda>_.
     db_bind (reassign_session fault toSessionId fromSessionId) (\<lambda>changes.
     db_bind (exec_commit fault) (\<lambda>_.
     db_return \<lparr>moved = changes, oldMaxSeq = oldMax, newMaxSeq = newMax\<rparr>))))))"

definition mergeSessionMessages ::
  "merge_step option \<Rightarrow> string \<Rightarrow> string \<Rightarrow> merge_result db_call" where
  "mergeSessionMessages fault fromSessionId toSessionId db =
     (if fromSessionId = toSessionId
      then (Inr \<lparr>moved = 0, oldMaxSeq = 0, newMaxSeq = 0\<rparr>, db)
      else if fault = Some AtGetMaxSeq then (Inl StatementFailed, db)
      else
        (let oldMax = getMaxSeq db fromSessionId;
             newMax = getMaxSeq db toSessionId
         in case merge_transaction fault fromSessionId toSessionId oldMax newMax db of
              (Inr res, db') \<Rightarrow> (Inr res, db')
            | (Inl e, db') \<Rightarrow>
                (case exec_rollback db' of
                   (Inl e', db'') \<Rightarrow> (Inl e', db'')
                 | (Inr _, db'') \<Rightarrow> (Inl e, db''))))"

text \<open>
  What a merge of session \<open>A\<close> into session \<open>B\<close> makes of a row, where \<open>k\<close> is the
  greatest \<^verbatim>\<open>seq\<close> of \<open>A\<close> and \<open>toLocalIds\<close> are the local ids in use in \<open>B\<close>: a row of \<open>A\<close>
  moves to \<open>B\<close> with its \<^verbatim>\<open>seq\<close> and loses a local id that \<open>B\<close> uses; a row of \<open>B\<close> has its
  \<^verbatim>\<open>seq\<close> raised by \<open>k\<close>.
\<close>

definition merged_row :: "string \<Rightarrow> string \<Rightarrow> int \<Rightarrow> string list \<Rightarrow> DbMessageRow \<Rightarrow> DbMessageRow" where
  "merged_row A B k toLocalIds r =
     (if session_id r = A
      then r\<lparr>session_id := B,
             local_id := (if local_id r \<in> Some ` set toLocalIds then None else local_id r)\<rparr>
      else if session_id r = B then r\<lparr>seq := seq r + k\<rparr>
      else r)"

text \<open>
  The same in the words of the specification: the moved rows of \<open>A\<close> are renumbered to
  continue after the greatest \<^verbatim>\<open>seq\<close> \<open>n\<close> of \<open>B\<close>, and the rows of \<open>B\<close> stay as they are.
\<close>

definition spec_merged_row :: "string \<Rightarrow> string \<Rightarrow> int \<Rightarrow> string list \<Rightarrow> DbMessageRow \<Rightarrow> DbMessageRow" where
  "spec_merged_row A B n toLocalIds r =
     (if session_id r = A
      then r\<lparr>session_id := B, seq := seq r + n,
             local_id := (if local_id r \<in> Some ` set toLocalIds then None else local_id r)\<rparr>
      else r)"

definition session_seqs :: "DbMessageRow list \<Rightarrow> string \<Rightarrow> int list" where
  "session_seqs rows sessionId = map seq (filter (\<lambda>r. session_id r = sessionId) rows)"

text \<open>A store with two sessions: \<open>A\<close> holds one message, \<open>B\<close> holds two; the local id
  \<open>l1\<close> is used in both.\<close>

definition merge_example :: database where
  "merge_example =
     \<lparr>sessions = [''A'', ''B''],
      messages =
        [\<lparr>row_id = ''a1'', session_id = ''A'', content = ''{}'', created_at = 10, seq = 1,
          local_id = Some ''l1''\<rparr>,
         \<lparr>row_id = ''b1'', session_id = ''B'', content = ''{}'', created_at = 20, seq = 1,
          local_id = Some ''l1''\<rparr>,
         \<lparr>row_id = ''b2'', session_id = ''B'', content = ''{}'', created_at = 30, seq = 2,
          local_id = None\<rparr>],
      snapshot = None\<rparr>"

definition empty_store :: database where
  "empty_store = \<lparr>sessions = [''session-1''], messages = [], snapshot = None\<rparr>"

text \<open>
  Session \<open>s\<close> holds exactly \<open>m\<close> messages, whose \<^verbatim>\<open>seq\<close> values are \<open>1, \<dots>, m\<close> without
  a gap.
\<close>

definition gap_free :: "DbMessageRow list \<Rightarrow> string \<Rightarrow> nat \<Rightarrow> bool" where
  "gap_free rows s m =
     (length (session_seqs rows s) = m \<and> set (session_seqs rows s) = {1 .. int m})"

section \<open>Opening the store: schema version and required tables\<close>



























section \<open>The notification hub\<close>

text \<open>
  A session as the hub reads it: its \<^verbatim>\<open>id\<close> (here \<open>sid\<close>), its \<^verbatim>\<open>active\<close> flag and its
  \<^verbatim>\<open>agentState\<close>, which may be null and whose \<^verbatim>\<open>requests\<close> may be absent; the pending
  requests are keyed by request id (each with the name of its tool). The sync engine is
  the list of its sessions; \<^verbatim>\<open>getSession\<close> finds a session by its id.
\<close>

record AgentState =
  requests :: "(string \<times> string) list option"

record Session =
  sid :: string
  active :: bool
  agentState :: "AgentState option"

type_synonym SyncEngine = "Session list"

definition getSession :: "SyncEngine \<Rightarrow> string \<Rightarrow> Session option" where
  "getSession engine sessionId = find (\<lambda>s. sid s = sessionId) engine"

text \<open>
  A call of a method of a notification channel, by the position of the channel in the
  hub's list. A channel that rejects is caught and logged by the hub, so a call has no
  result the hub reads.
\<close>

datatype channel_call = SendReady nat Session | SendPermissionRequest nat Session

fun call_session :: "channel_call \<Rightarrow> Session" where
  "call_session (SendReady i s) = s"
| "call_session (SendPermissionRequest i s) = s"

fun call_channel :: "channel_call \<Rightarrow> nat" where
  "call_channel (SendReady i s) = i"
| "call_channel (SendPermissionRequest i s) = i"

text \<open>
  The hub awaits every call of a channel: it goes on, in a later turn, when the call has
  settled. How long a call made at a given time takes to settle is up to the channel and
  is a parameter here, in milliseconds. Every call is taken to settle; a call that never
  did would keep the hub from the channels after it.
\<close>

type_synonym settle_time = "int \<Rightarrow> channel_call \<Rightarrow> nat"

text \<open>
  \<^verbatim>\<open>for (const channel of this.channels) { try { await channel.send...(session) } catch
  ... }\<close>, entered at time \<open>t\<close>: the calls made, each with the time at which it is made.
  The first channel is called at once, every further channel when the call before it has
  settled. The loop reads neither the engine nor the maps of the hub: every call carries
  the session that was handed to the loop, shown here as it was when it was fetched.
\<close>

fun await_each :: "settle_time \<Rightarrow> int \<Rightarrow> channel_call list \<Rightarrow> (int \<times> channel_call) list" where
  "await_each settle t [] = []"
| "await_each settle t (c # cs) = (t, c) # await_each settle (t + int (settle t c)) cs"

text \<open>
  The hub: the number of its channels, its two tunables, and its three maps keyed by
  session id. A pending debounce timer is given by the time at which it fires, and the
  pending timers are listed in the order in which they were set, which is the order in
  which the runtime fires timers that are due at the same time. (The methods modelled
  here read the maps by key only.)
\<close>

record NotificationHubOptions =
  opt_readyCooldownMs :: "int option"
  opt_permissionDebounceMs :: "int option"

record NotificationHub =
  channels :: nat
  readyCooldownMs :: int
  permissionDebounceMs :: int
  lastKnownRequests :: "(string \<times> string set) list"
  notificationDebounce :: "(string \<times> int) list"
  lastReadyNotificationAt :: "(string \<times> int) list"

definition newNotificationHub :: "nat \<Rightarrow> NotificationHubOptions option \<Rightarrow> NotificationHub" where
  "newNotificationHub nchannels options =
     \<lparr>channels = nchannels,
      readyCooldownMs =
        (case options of None \<Rightarrow> 5000
         | Some opts \<Rightarrow> (case opt_readyCooldownMs opts of None \<Rightarrow> 5000 | Some v \<Rightarrow> v)),
      permissionDebounceMs =
        (case options of None \<Rightarrow> 500
         | Some opts \<Rightarrow> (case opt_permissionDebounceMs opts of None \<Rightarrow> 500 | Some v \<Rightarrow> v)),
      lastKnownRequests = [],
      notificationDebounce = [],
      lastReadyNotificationAt = []\<rparr>"

definition clearSessionState :: "string \<Rightarrow> NotificationHub \<Rightarrow> NotificationHub" where
  "clearSessionState sessionId h =
     h\<lparr>notificationDebounce := AList.delete sessionId (notificationDebounce h),
       lastKnownRequests := AList.delete sessionId (lastKnownRequests h),
       lastReadyNotificationAt := AList.delete sessionId (lastReadyNotificationAt h)\<rparr>"

definition getNotifiableSession :: "SyncEngine \<Rightarrow> string \<Rightarrow> Session option" where
  "getNotifiableSession engine sessionId =
     (case getSession engine sessionId of
        None \<Rightarrow> None
      | Some session \<Rightarrow> if \<not> active session then None else Some session)"

text \<open>
  \<^verbatim>\<open>setTimeout(callback, ms)\<close> of the runtime: a delay below 1 or above 2147483647
  milliseconds is taken as 1.
\<close>

definition timer_delay :: "int \<Rightarrow> int" where
  "timer_delay ms = (if ms < 1 \<or> 2147483647 < ms then 1 else ms)"

text \<open>
  \<^verbatim>\<open>session.agentState?.requests\<close>, and \<^verbatim>\<open>checkForPermissionNotification(session)\<close> at
  clock reading \<open>now\<close>. Clearing the existing timer and setting the new one removes the
  session's entry and adds the new timer as the one set last.
\<close>

definition session_requests :: "Session \<Rightarrow> (string \<times> string) list option" where
  "session_requests session =
     (case agentState session of None \<Rightarrow> None | Some st \<Rightarrow> requests st)"

definition checkForPermissionNotification :: "int \<Rightarrow> Session \<Rightarrow> NotificationHub \<Rightarrow> NotificationHub" where
  "checkForPermissionNotification now session h =
     (case session_requests session of
        None \<Rightarrow> h
      | Some reqs \<Rightarrow>
          (let newRequestIds = set (map fst reqs);
               oldRequestIds = (case map_of (lastKnownRequests h) (sid session) of
                                  None \<Rightarrow> {} | Some old \<Rightarrow> old);
               hasNewRequests = (\<exists>requestId \<in> newRequestIds. requestId \<notin> oldRequestIds);
               h1 = h\<lparr>lastKnownRequests :=
                        AList.update (sid session) newRequestIds (lastKnownRequests h)\<rparr>
           in if \<not> hasNewRequests then h1
              else h1\<lparr>notificationDebounce :=
                        AList.delete (sid session) (notificationDebounce h1)
                          @ [(sid session, now + timer_delay (permissionDebounceMs h1))]\<rparr>))"

text \<open>
  \<^verbatim>\<open>notifyReady(session)\<close> and \<^verbatim>\<open>notifyPermission(session)\<close>, entered at time \<open>now\<close>: every
  channel is called in turn with the session handed over, each call awaited before the
  next.
\<close>

definition notifyReady ::
  "settle_time \<Rightarrow> int \<Rightarrow> Session \<Rightarrow> NotificationHub \<Rightarrow> (int \<times> channel_call) list" where
  "notifyReady settle now session h =
     await_each settle now (map (\<lambda>i. SendReady i session) [0 ..< channels h])"

definition notifyPermission ::
  "settle_time \<Rightarrow> int \<Rightarrow> Session \<Rightarrow> NotificationHub \<Rightarrow> (int \<times> channel_call) list" where
  "notifyPermission settle now session h =
     await_each settle now (map (\<lambda>i. SendPermissionRequest i session) [0 ..< channels h])"

text \<open>
  \<^verbatim>\<open>sendPermissionNotification(sessionId)\<close>, run at time \<open>now\<close> with the engine in state
  \<open>engine\<close>: the session is fetched and checked once, before the first channel is called.
\<close>

definition sendPermissionNotification ::
  "settle_time \<Rightarrow> SyncEngine \<Rightarrow> int \<Rightarrow> string \<Rightarrow> NotificationHub
     \<Rightarrow> (int \<times> channel_call) list" where
  "sendPermissionNotification settle engine now sessionId h =
     (case getNotifiableSession engine sessionId of
        None \<Rightarrow> []
      | Some session \<Rightarrow> notifyPermission settle now session h)"

text \<open>
  \<^verbatim>\<open>sendReadyNotification(sessionId)\<close> at clock reading \<open>now\<close>: the new state and the calls
  made. The session is fetched and checked once, and the timestamp is set, before the
  first channel is called.
\<close>

definition sendReadyNotification ::
  "settle_time \<Rightarrow> SyncEngine \<Rightarrow> int \<Rightarrow> string \<Rightarrow> NotificationHub
     \<Rightarrow> NotificationHub \<times> (int \<times> channel_call) list" where
  "sendReadyNotification settle engine now sessionId h =
     (case getNotifiableSession engine sessionId of
        None \<Rightarrow> (h, [])
      | Some session \<Rightarrow>
          (let last = (case map_of (lastReadyNotificationAt h) sessionId of
                         None \<Rightarrow> 0 | Some t \<Rightarrow> t)
           in if now - last < readyCooldownMs h then (h, [])
              else (let h1 = h\<lparr>lastReadyNotificationAt :=
                                  AList.update sessionId now (lastReadyNotificationAt h)\<rparr>
                    in (h1, notifyReady settle now session h1))))"

text \<open>
  The \<^verbatim>\<open>sessionId\<close> of an event, when it is truthy: a non-empty string. (The type
  \<^verbatim>\<open>SyncEvent\<close> gives it as a string; the hub's maps and the engine are keyed by strings.)
\<close>

definition event_sessionId :: "(string \<times> jsval) list \<Rightarrow> string option" where
  "event_sessionId event =
     (case field (JObj event) ''sessionId'' of
        JStr s \<Rightarrow> if s \<noteq> [] then Some s else None
      | _ \<Rightarrow> None)"

text \<open>
  \<^verbatim>\<open>handleSyncEvent(event)\<close> at clock reading \<open>now\<close>, with the sync engine in state
  \<open>engine\<close>: the new state of the hub, and the calls to the channels that the event
  brings about, each with its time. Every branch of the source asks for a truthy
  \<^verbatim>\<open>event.sessionId\<close>. The hub imports \<^verbatim>\<open>extractMessageEventType\<close> from the
  \<^verbatim>\<open>eventParsing\<close> module beside it, which is the variant with the fallback.
\<close>

definition handleSyncEvent ::
  "settle_time \<Rightarrow> SyncEngine \<Rightarrow> int \<Rightarrow> (string \<times> jsval) list \<Rightarrow> NotificationHub
     \<Rightarrow> NotificationHub \<times> (int \<times> channel_call) list" where
  "handleSyncEvent settle engine now event h =
     (case event_sessionId event of
        None \<Rightarrow> (h, [])
      | Some sessionId \<Rightarrow>
          if field (JObj event) ''type'' = JStr ''session-updated''
             \<or> field (JObj event) ''type'' = JStr ''session-added''
          then (case getSession engine sessionId of
                  None \<Rightarrow> (clearSessionState sessionId h, [])
                | Some session \<Rightarrow>
                    if \<not> active session then (clearSessionState sessionId h, [])
                    else (checkForPermissionNotification now session h, []))
          else if field (JObj event) ''type'' = JStr ''session-removed''
          then (clearSessionState sessionId h, [])
          else if field (JObj event) ''type'' = JStr ''message-received''
          then (case extractMessageEventType_fallback event of
                  Inr (Some eventType) \<Rightarrow>
                    if eventType = ''ready''
                    then sendReadyNotification settle engine now sessionId h
                    else (h, [])
                | _ \<Rightarrow> (h, []))
          else (h, []))"

text \<open>
  The callback of the debounce timer of a session, run at time \<open>now\<close>: it removes the
  timer from the map and sends the permission notification for the session as the engine
  has it then.
\<close>

definition fireTimer ::
  "settle_time \<Rightarrow> SyncEngine \<Rightarrow> int \<Rightarrow> string \<Rightarrow> NotificationHub
     \<Rightarrow> NotificationHub \<times> (int \<times> channel_call) list" where
  "fireTimer settle engine now sessionId h =
     (let h1 = h\<lparr>notificationDebounce := AList.delete sessionId (notificationDebounce h)\<rparr>
      in (h1, sendPermissionNotification settle engine now sessionId h1))"

text \<open>
  Time passes up to \<open>t\<close> while the engine stays in state \<open>engine\<close>: the pending timers
  that are due fire in the order of their times, those of one time in the order in which
  they were set, each at its time. \<open>fireStep\<close> fires one timer and appends the calls it
  brings about to those listed so far.
\<close>

definition fireStep ::
  "settle_time \<Rightarrow> SyncEngine \<Rightarrow> string \<times> int \<Rightarrow> NotificationHub \<times> (int \<times> channel_call) list
     \<Rightarrow> NotificationHub \<times> (int \<times> channel_call) list" where
  "fireStep settle engine timer acc =
     (fst (fireTimer settle engine (snd timer) (fst timer) (fst acc)),
      snd acc @ snd (fireTimer settle engine (snd timer) (fst timer) (fst acc)))"

definition fireDue ::
  "settle_time \<Rightarrow> SyncEngine \<Rightarrow> int \<Rightarrow> NotificationHub
     \<Rightarrow> NotificationHub \<times> (int \<times> channel_call) list" where
  "fireDue settle engine t h =
     fold (fireStep settle engine)
       (sort_key snd (filter (\<lambda>timer. snd timer \<le> t) (notificationDebounce h)))
       (h, [])"

text \<open>
  A timeline: at each listed time the engine, now in the listed state, emits the listed
  event. \<open>run\<close> lets the time pass up to each event, hands the event to the hub, and in
  the end lets the time pass up to \<open>stop_time\<close>; it gives the hub's final state and all
  calls that the events and timers bring about, each with its time, listed notification
  by notification (the calls that a notification under way makes after \<open>stop_time\<close>
  included). \<open>engine_at\<close> is the state of the engine at a time.
\<close>

fun run ::
  "settle_time \<Rightarrow> SyncEngine \<Rightarrow> (int \<times> SyncEngine \<times> (string \<times> jsval) list) list \<Rightarrow> int
     \<Rightarrow> NotificationHub \<Rightarrow> NotificationHub \<times> (int \<times> channel_call) list" where
  "run settle engine [] stop_time h = fireDue settle engine stop_time h"
| "run settle engine ((t, engine', event) # rest) stop_time h =
     (let (h1, out1) = fireDue settle engine t h;
          (h2, calls) = handleSyncEvent settle engine' t event h1;
          (h3, out3) = run settle engine' rest stop_time h2
      in (h3, out1 @ calls @ out3))"

fun engine_at ::
  "SyncEngine \<Rightarrow> (int \<times> SyncEngine \<times> (string \<times> jsval) list) list \<Rightarrow> int \<Rightarrow> SyncEngine" where
  "engine_at engine [] t = engine"
| "engine_at engine ((t', engine', event) # rest) t =
     (if t' \<le> t then engine_at engine' rest t else engine)"

text \<open>The session, the events and the hub of the repository's test of the hub.\<close>

definition test_session :: "(string \<times> string) list option \<Rightarrow> Session" where
  "test_session reqs =
     \<lparr>sid = ''session-1'', active = True, agentState = Some \<lparr>requests = reqs\<rparr>\<rparr>"

definition idle_session :: Session where
  "idle_session = \<lparr>sid = ''session-1'', active = True, agentState = None\<rparr>"

definition session_updated :: "(string \<times> jsval) list" where
  "session_updated = [(''type'', JStr ''session-updated''), (''sessionId'', JStr ''session-1'')]"

definition session_removed :: "(string \<times> jsval) list" where
  "session_removed = [(''type'', JStr ''session-removed''), (''sessionId'', JStr ''session-1'')]"

text \<open>
  The current set of pending request ids in the words of the specification: the keys of
  \<^verbatim>\<open>agentState.requests\<close>, none when the field is absent.
\<close>

definition current_request_ids :: "Session \<Rightarrow> string set" where
  "current_request_ids session =
     (case session_requests session of None \<Rightarrow> {} | Some reqs \<Rightarrow> set (map fst reqs))"

definition stale_hub :: NotificationHub where
  "stale_hub =
     \<lparr>channels = 1, readyCooldownMs = 5000, permissionDebounceMs = 500,
      lastKnownRequests = [(''session-1'', {''req1''})],
      notificationDebounce = [(''session-1'', 1500)],
      lastReadyNotificationAt = [(''session-1'', 900)]\<rparr>"

definition test_hub :: "int \<Rightarrow> int \<Rightarrow> NotificationHub" where
  "test_hub debounce cooldown =
     newNotificationHub 1
       (Some \<lparr>opt_readyCooldownMs = Some cooldown, opt_permissionDebounceMs = Some debounce\<rparr>)"

text \<open>The hub tracks a session when one of its three maps has an entry for it.\<close>

definition tracked :: "NotificationHub \<Rightarrow> string \<Rightarrow> bool" where
  "tracked h sessionId =
     (map_of (notificationDebounce h) sessionId \<noteq> None
      \<or> map_of (lastKnownRequests h) sessionId \<noteq> None
      \<or> map_of (lastReadyNotificationAt h) sessionId \<noteq> None)"

definition inactive_session :: Session where
  "inactive_session = \<lparr>sid = ''session-1'', active = False, agentState = None\<rparr>"

text \<open>
  Channels whose calls settle at once; channels of which the first takes 10 ms to settle;
  and a hub with two channels and the default tunables.
\<close>

definition instant :: settle_time where
  "instant t c = 0"

definition slow_first_channel :: settle_time where
  "slow_first_channel t c = (if call_channel c = 0 then 10 else 0)"

definition two_channel_hub :: NotificationHub where
  "two_channel_hub = newNotificationHub 2 None"











section \<open>Properties of event parsing\<close>

lemma getProp_field: "\<not> nullish v \<Longrightarrow> getProp v p = Inr (field v p)"
  by (cases v) (simp_all add: field_def)

lemma getProp_obj: "getProp (JObj ps) p = Inr (field (JObj ps) p)"
  by (simp add: field_def)

lemma optChain_field: "optChain v p = Inr (field v p)"
  by (cases v) (simp_all add: field_def)

lemma field_JNull: "field JNull p = JUndefined"
  by (simp add: field_def)

lemma isObject_not_nullish: "isObject v \<Longrightarrow> \<not> nullish v"
  by (cases v) simp_all

lemma extractEventEnvelope_spec: "extractEventEnvelope c = Inr (envelope_of_content c)"
  by (simp add: extractEventEnvelope_def envelope_of_content_def is_event_envelope_def
      bind_result_def getProp_field isObject_not_nullish)

lemma envelope_isObject: "envelope_of_content c = Some e \<Longrightarrow> isObject e"
  by (auto simp: envelope_of_content_def is_event_envelope_def split: if_splits)

lemma data_tail:
  assumes "isObject e"
  shows "bind_result (getProp e ''data'') (\<lambda>d.
           let data = (if isObject d then d else JNull) in
           bind_result (optChain data ''type'') (\<lambda>eventType.
             Inr (case eventType of JStr s \<Rightarrow> Some s | _ \<Rightarrow> None))) = Inr (envelope_data_type e)"
  using assms
  by (simp add: getProp_field isObject_not_nullish bind_result_def optChain_field Let_def
      envelope_data_type_def field_JNull)

lemma envelope_tail:
  "bind_result (extractEventEnvelope c) (\<lambda>envelope.
     case envelope of
       None \<Rightarrow> Inr None
     | Some env \<Rightarrow>
         bind_result (getProp env ''data'') (\<lambda>d.
           let data = (if isObject d then d else JNull) in
           bind_result (optChain data ''type'') (\<lambda>eventType.
             Inr (case eventType of JStr s \<Rightarrow> Some s | _ \<Rightarrow> None))))
   = Inr (case envelope_of_content c of None \<Rightarrow> None | Some e \<Rightarrow> envelope_data_type e)"
proof (cases "envelope_of_content c")
  case None
  then show ?thesis by (simp add: extractEventEnvelope_spec bind_result_def)
next
  case (Some e)
  then have "isObject e" by (rule envelope_isObject)
  then show ?thesis
    using Some data_tail [of e] by (simp add: extractEventEnvelope_spec bind_result_def)
qed

lemma extractMessageEventType_eq:
  "extractMessageEventType ev =
     Inr (if field (JObj ev) ''type'' \<noteq> JStr ''message-received'' then None
          else case envelope_of_content (message_content ev) of
                 None \<Rightarrow> None
               | Some e \<Rightarrow> envelope_data_type e)"
  unfolding extractMessageEventType_def envelope_tail
  by (simp only: getProp_obj optChain_field) (simp add: bind_result_def message_content_def)

lemma extractMessageEventType_fallback_eq:
  "extractMessageEventType_fallback ev =
     Inr (if field (JObj ev) ''type'' \<noteq> JStr ''message-received'' then None
          else case envelope_of_content
                 (if nullish (message_content ev) then field (JObj ev) ''data''
                  else message_content ev) of
                 None \<Rightarrow> None
               | Some e \<Rightarrow> envelope_data_type e)"
  unfolding extractMessageEventType_fallback_def envelope_tail
  by (simp only: getProp_obj optChain_field) (simp add: bind_result_def message_content_def)

lemma envelope_data_type_Some:
  "envelope_data_type e = Some s \<longleftrightarrow>
     isObject (field e ''data'') \<and> field (field e ''data'') ''type'' = JStr s"
  by (auto simp: envelope_data_type_def split: jsval.splits)

lemma envelope_of_content_None:
  "envelope_of_content c = None \<longleftrightarrow>
     \<not> is_event_envelope c \<and> \<not> (isObject c \<and> is_event_envelope (field c ''content''))"
  by (auto simp: envelope_of_content_def)

text \<open>
  C7. \<^verbatim>\<open>extractMessageEventType\<close> is total: on every event object it returns a string or
  null and never throws. It returns null when the event's type is not
  \<^verbatim>\<open>'message-received'\<close>, and when the message content is neither an envelope
  \<^verbatim>\<open>{type: 'event', data}\<close> itself nor a wrapping message whose inner \<^verbatim>\<open>content\<close> is one.
  When there is an envelope, the result is a string \<open>s\<close> exactly when the envelope's
  \<^verbatim>\<open>data\<close> is an object whose \<^verbatim>\<open>type\<close> is the string \<open>s\<close>, and null otherwise.
\<close>

theorem extractMessageEventType_total:
  "(\<exists>r. extractMessageEventType ev = Inr r)
   \<and> (field (JObj ev) ''type'' \<noteq> JStr ''message-received''
        \<longrightarrow> extractMessageEventType ev = Inr None)
   \<and> (\<not> is_event_envelope (message_content ev)
        \<and> \<not> (isObject (message_content ev)
              \<and> is_event_envelope (field (message_content ev) ''content''))
        \<longrightarrow> extractMessageEventType ev = Inr None)
   \<and> (field (JObj ev) ''type'' = JStr ''message-received''
        \<and> envelope_of_content (message_content ev) = Some e
        \<longrightarrow> (\<forall>s. extractMessageEventType ev = Inr (Some s)
                   \<longleftrightarrow> isObject (field e ''data'') \<and> field (field e ''data'') ''type'' = JStr s)
           \<and> (extractMessageEventType ev = Inr None
                   \<longleftrightarrow> \<not> (\<exists>s. isObject (field e ''data'')
                              \<and> field (field e ''data'') ''type'' = JStr s)))"
proof (intro conjI impI)
  show "\<exists>r. extractMessageEventType ev = Inr r"
    by (simp add: extractMessageEventType_eq)
next
  assume "field (JObj ev) ''type'' \<noteq> JStr ''message-received''"
  then show "extractMessageEventType ev = Inr None"
    by (simp add: extractMessageEventType_eq)
next
  assume "\<not> is_event_envelope (message_content ev)
        \<and> \<not> (isObject (message_content ev)
              \<and> is_event_envelope (field (message_content ev) ''content''))"
  then have "envelope_of_content (message_content ev) = None"
    by (simp add: envelope_of_content_None)
  then show "extractMessageEventType ev = Inr None"
    by (simp add: extractMessageEventType_eq)
next
  assume h: "field (JObj ev) ''type'' = JStr ''message-received''
        \<and> envelope_of_content (message_content ev) = Some e"
  then have eq: "extractMessageEventType ev = Inr (envelope_data_type e)"
    by (simp add: extractMessageEventType_eq)
  show "\<forall>s. extractMessageEventType ev = Inr (Some s)
          \<longleftrightarrow> isObject (field e ''data'') \<and> field (field e ''data'') ''type'' = JStr s"
    by (simp add: eq envelope_data_type_Some)
  show "extractMessageEventType ev = Inr None
          \<longleftrightarrow> \<not> (\<exists>s. isObject (field e ''data'') \<and> field (field e ''data'') ''type'' = JStr s)"
    using envelope_data_type_Some [of e] by (cases "envelope_data_type e") (auto simp: eq)
qed

lemmas event_parsing_eval =
  wrapped_ready_event_def direct_ready_event_def text_message_event_def
  session_updated_event_def top_level_data_event_def ready_envelope_def
  field_def message_content_def envelope_of_content_def is_event_envelope_def

theorem extractMessageEventType_total_witness:
  "field (JObj wrapped_ready_event) ''type'' = JStr ''message-received''
   \<and> envelope_of_content (message_content wrapped_ready_event) = Some ready_envelope
   \<and> extractMessageEventType wrapped_ready_event = Inr (Some ''ready'')
   \<and> field (JObj session_updated_event) ''type'' \<noteq> JStr ''message-received''
   \<and> extractMessageEventType session_updated_event = Inr None
   \<and> \<not> is_event_envelope (message_content text_message_event)
   \<and> \<not> (isObject (message_content text_message_event)
         \<and> is_event_envelope (field (message_content text_message_event) ''content''))
   \<and> extractMessageEventType text_message_event = Inr None"
proof -
  have a: "field (JObj wrapped_ready_event) ''type'' = JStr ''message-received''
      \<and> envelope_of_content (message_content wrapped_ready_event) = Some ready_envelope"
    by (simp add: event_parsing_eval)
  have d: "isObject (field ready_envelope ''data'')
      \<and> field (field ready_envelope ''data'') ''type'' = JStr ''ready''"
    by (simp add: event_parsing_eval)
  have b: "field (JObj session_updated_event) ''type'' \<noteq> JStr ''message-received''"
    by (simp add: event_parsing_eval)
  have c: "\<not> is_event_envelope (message_content text_message_event)
      \<and> \<not> (isObject (message_content text_message_event)
         \<and> is_event_envelope (field (message_content text_message_event) ''content''))"
    by (simp add: event_parsing_eval)
  have "extractMessageEventType wrapped_ready_event = Inr (Some ''ready'')"
    using extractMessageEventType_total [of wrapped_ready_event ready_envelope] a d by blast
  moreover have "extractMessageEventType session_updated_event = Inr None"
    using extractMessageEventType_total [of session_updated_event] b by blast
  moreover have "extractMessageEventType text_message_event = Inr None"
    using extractMessageEventType_total [of text_message_event] c by blast
  ultimately show ?thesis using a b c by blast
qed



text \<open>
  C8. The two implementations of \<^verbatim>\<open>extractMessageEventType\<close> agree on every
  message-received event whose message content is present (neither null nor undefined),
  and on every event of another type. Where they differ, the message content is absent
  and the event carries a top-level \<^verbatim>\<open>data\<close> envelope: the variant without the fallback
  returns null there and the variant with it returns that envelope's event type.
\<close>

theorem extractMessageEventType_variants_agree:
  "(\<not> nullish (message_content ev)
      \<longrightarrow> extractMessageEventType_fallback ev = extractMessageEventType ev)
   \<and> (field (JObj ev) ''type'' \<noteq> JStr ''message-received''
      \<longrightarrow> extractMessageEventType_fallback ev = extractMessageEventType ev)
   \<and> (extractMessageEventType_fallback ev \<noteq> extractMessageEventType ev
      \<longrightarrow> field (JObj ev) ''type'' = JStr ''message-received''
          \<and> nullish (message_content ev)
          \<and> (\<exists>e. envelope_of_content (field (JObj ev) ''data'') = Some e
                 \<and> extractMessageEventType_fallback ev = Inr (envelope_data_type e))
          \<and> extractMessageEventType ev = Inr None)"
proof (intro conjI impI)
  assume "\<not> nullish (message_content ev)"
  then show "extractMessageEventType_fallback ev = extractMessageEventType ev"
    by (simp add: extractMessageEventType_eq extractMessageEventType_fallback_eq)
next
  assume "field (JObj ev) ''type'' \<noteq> JStr ''message-received''"
  then show "extractMessageEventType_fallback ev = extractMessageEventType ev"
    by (simp add: extractMessageEventType_eq extractMessageEventType_fallback_eq)
next
  assume d: "extractMessageEventType_fallback ev \<noteq> extractMessageEventType ev"
  show t: "field (JObj ev) ''type'' = JStr ''message-received''"
  proof (rule ccontr)
    assume "field (JObj ev) ''type'' \<noteq> JStr ''message-received''"
    then have "extractMessageEventType_fallback ev = extractMessageEventType ev"
      by (simp add: extractMessageEventType_eq extractMessageEventType_fallback_eq)
    with d show False by simp
  qed
  show n: "nullish (message_content ev)"
  proof (rule ccontr)
    assume "\<not> nullish (message_content ev)"
    then have "extractMessageEventType_fallback ev = extractMessageEventType ev"
      by (simp add: extractMessageEventType_eq extractMessageEventType_fallback_eq)
    with d show False by simp
  qed
  from n have "envelope_of_content (message_content ev) = None"
    by (cases "message_content ev")
       (simp_all add: envelope_of_content_def is_event_envelope_def)
  then show none: "extractMessageEventType ev = Inr None"
    by (simp add: extractMessageEventType_eq)
  from d t n none
  show "\<exists>e. envelope_of_content (field (JObj ev) ''data'') = Some e
          \<and> extractMessageEventType_fallback ev = Inr (envelope_data_type e)"
    by (cases "envelope_of_content (field (JObj ev) ''data'')")
       (simp_all add: extractMessageEventType_fallback_eq)
qed


theorem extractMessageEventType_variants_agree_witness:
  "\<not> nullish (message_content wrapped_ready_event)
   \<and> extractMessageEventType_fallback wrapped_ready_event
       = extractMessageEventType wrapped_ready_event
   \<and> field (JObj session_updated_event) ''type'' \<noteq> JStr ''message-received''
   \<and> extractMessageEventType_fallback session_updated_event
       = extractMessageEventType session_updated_event
   \<and> extractMessageEventType_fallback top_level_data_event
       \<noteq> extractMessageEventType top_level_data_event
   \<and> nullish (message_content top_level_data_event)
   \<and> extractMessageEventType top_level_data_event = Inr None
   \<and> extractMessageEventType_fallback top_level_data_event = Inr (Some ''ready'')"
proof -
  have a: "\<not> nullish (message_content wrapped_ready_event)"
    by (simp add: event_parsing_eval)
  have b: "field (JObj session_updated_event) ''type'' \<noteq> JStr ''message-received''"
    by (simp add: event_parsing_eval)
  have c: "extractMessageEventType_fallback top_level_data_event = Inr (Some ''ready'')"
    by (simp add: extractMessageEventType_fallback_eq event_parsing_eval envelope_data_type_def)
  have d: "extractMessageEventType top_level_data_event = Inr None"
    by (simp add: extractMessageEventType_eq event_parsing_eval)
  have e: "extractMessageEventType_fallback top_level_data_event
       \<noteq> extractMessageEventType top_level_data_event"
    by (simp add: c d)
  have "extractMessageEventType_fallback wrapped_ready_event
       = extractMessageEventType wrapped_ready_event"
    using extractMessageEventType_variants_agree [of wrapped_ready_event] a by blast
  moreover have "extractMessageEventType_fallback session_updated_event
       = extractMessageEventType session_updated_event"
    using extractMessageEventType_variants_agree [of session_updated_event] b by blast
  moreover have "nullish (message_content top_level_data_event)"
    using extractMessageEventType_variants_agree [of top_level_data_event] e by blast
  ultimately show ?thesis using a b c d e by blast
qed

section \<open>Properties of the message store\<close>

lemma find_append_fresh:
  "find P xs = None \<Longrightarrow> P x \<Longrightarrow> find P (xs @ [x]) = Some x"
  by (induction xs) (auto split: if_splits)

lemma find_None_notin: "k \<notin> set (map f xs) \<Longrightarrow> find (\<lambda>r. f r = k) xs = None"
  by (induction xs) auto

lemma find_Some_key: "find P xs = Some r \<Longrightarrow> r \<in> set xs \<and> P r"
  by (induction xs) (auto split: if_splits)

lemma find_None_filter: "find P xs = None \<Longrightarrow> filter P xs = []"
  by (induction xs) (auto split: if_splits)

lemma find_None_key_notin:
  "find (\<lambda>r. session_id r = s \<and> local_id r = Some l) rows = None
   \<Longrightarrow> (s, Some l) \<notin> set (map local_id_key rows)"
  by (induction rows) (auto simp: local_id_key_def split: if_splits)

lemma getMaxSeq_append:
  "getMaxSeq (db\<lparr>messages := messages db @ [r]\<rparr>) s =
     (if session_id r = s then
        (if filter (\<lambda>r. session_id r = s) (messages db) = [] then seq r
         else max (seq r) (getMaxSeq db s))
      else getMaxSeq db s)"
proof (cases "session_id r = s")
  case False
  then show ?thesis by (simp add: getMaxSeq_def)
next
  case True
  let ?xs = "map seq (filter (\<lambda>r. session_id r = s) (messages db))"
  have eq: "getMaxSeq (db\<lparr>messages := messages db @ [r]\<rparr>) s = Max (insert (seq r) (set ?xs))"
    using True by (simp add: getMaxSeq_def)
  show ?thesis
  proof (cases "?xs = []")
    case True
    with eq \<open>session_id r = s\<close> show ?thesis by simp
  next
    case False
    then have "set ?xs \<noteq> {}" by (simp only: set_empty not_False_eq_True)
    then have "Max (insert (seq r) (set ?xs)) = max (seq r) (Max (set ?xs))"
      by (rule Max_insert [OF finite_set])
    with eq False \<open>session_id r = s\<close> show ?thesis by (simp add: getMaxSeq_def)
  qed
qed

lemma getMaxSeq_no_rows: "filter (\<lambda>r. session_id r = s) (messages db) = [] \<Longrightarrow> getMaxSeq db s = 0"
  by (simp add: getMaxSeq_def)

lemma getMaxSeq_next:
  assumes "session_id r = s" and "seq r = getMaxSeq db s + 1"
  shows "getMaxSeq (db\<lparr>messages := messages db @ [r]\<rparr>) s = getMaxSeq db s + 1"
  using assms by (simp add: getMaxSeq_append getMaxSeq_no_rows)

lemma addMessage_existing:
  assumes "l \<noteq> []"
    and "find (\<lambda>r. session_id r = s \<and> local_id r = Some l) (messages db) = Some r"
  shows "addMessage P S now uuid s c (Some l) db = (Inr (toStoredMessage P r), db)"
  using assms by (simp add: addMessage_def)

lemma insert_message_ok:
  assumes "uuid \<notin> set (map row_id (messages db))" and "s \<in> set (sessions db)"
    and "lo \<noteq> None \<longrightarrow> (s, lo) \<notin> set (map local_id_key (messages db))"
  shows "insert_message uuid s (Some body) now n lo db =
     (Inr (), db\<lparr>messages := messages db @
        [\<lparr>row_id = uuid, session_id = s, content = body, created_at = now, seq = n,
          local_id = lo\<rparr>]\<rparr>)"
  using assms by (auto simp: insert_message_def)

lemma insert_message_refused:
  assumes "json = None \<or> uuid \<in> set (map row_id (messages db)) \<or> s \<notin> set (sessions db)"
  shows "insert_message uuid s json now n lo db = (Inl ConstraintFailed, db)"
  using assms by (auto simp: insert_message_def split: option.splits)

lemma addMessage_fresh:
  assumes "l \<noteq> []"
    and "find (\<lambda>r. session_id r = s \<and> local_id r = Some l) (messages db) = None"
    and "s \<in> set (sessions db)" and "uuid \<notin> set (map row_id (messages db))"
    and "c \<noteq> JUndefined"
  shows "addMessage P S now uuid s c (Some l) db =
     (Inr (toStoredMessage P \<lparr>row_id = uuid, session_id = s, content = S c,
                      created_at = now, seq = getMaxSeq db s + 1, local_id = Some l\<rparr>),
      db\<lparr>messages := messages db @ [\<lparr>row_id = uuid, session_id = s, content = S c,
                      created_at = now, seq = getMaxSeq db s + 1, local_id = Some l\<rparr>]\<rparr>)"
proof -
  let ?row = "\<lparr>row_id = uuid, session_id = s, content = S c,
                      created_at = now, seq = getMaxSeq db s + 1, local_id = Some l\<rparr>"
  have k: "Some l \<noteq> None \<longrightarrow> (s, Some l) \<notin> set (map local_id_key (messages db))"
    using find_None_key_notin [OF assms(2)] by simp
  have ins: "insert_message uuid s (Some (S c)) now (getMaxSeq db s + 1) (Some l) db
      = (Inr (), db\<lparr>messages := messages db @ [?row]\<rparr>)"
    by (rule insert_message_ok [OF assms(4,3) k])
  have f: "find (\<lambda>r. row_id r = uuid) (messages db @ [?row]) = Some ?row"
    using find_None_notin [OF assms(4)] by (simp add: find_append_fresh)
  show ?thesis
    using assms(1,2,5) ins f by (simp add: addMessage_def Let_def db_bind_def json_stringify_def)
qed

lemma addMessage_refused:
  assumes "l \<noteq> []"
    and "find (\<lambda>r. session_id r = s \<and> local_id r = Some l) (messages db) = None"
    and "\<not> (s \<in> set (sessions db) \<and> uuid \<notin> set (map row_id (messages db)) \<and> c \<noteq> JUndefined)"
  shows "addMessage P S now uuid s c (Some l) db = (Inl ConstraintFailed, db)"
proof -
  from assms(3) have "json_stringify S c = None \<or> uuid \<in> set (map row_id (messages db))
      \<or> s \<notin> set (sessions db)"
    by (auto simp: json_stringify_def)
  then have "insert_message uuid s (json_stringify S c) now (getMaxSeq db s + 1) (Some l) db
      = (Inl ConstraintFailed, db)"
    by (rule insert_message_refused)
  then show ?thesis using assms(1,2) by (simp add: addMessage_def Let_def db_bind_def)
qed

lemma addMessage_no_lookup:
  assumes "lo = None \<or> lo = Some []"
    and "s \<in> set (sessions db)" and "uuid \<notin> set (map row_id (messages db))"
    and "c \<noteq> JUndefined"
    and "lo \<noteq> None \<longrightarrow> (s, lo) \<notin> set (map local_id_key (messages db))"
  shows "addMessage P S now uuid s c lo db =
     (Inr (toStoredMessage P \<lparr>row_id = uuid, session_id = s, content = S c,
                      created_at = now, seq = getMaxSeq db s + 1, local_id = lo\<rparr>),
      db\<lparr>messages := messages db @ [\<lparr>row_id = uuid, session_id = s, content = S c,
                      created_at = now, seq = getMaxSeq db s + 1, local_id = lo\<rparr>]\<rparr>)"
proof -
  let ?row = "\<lparr>row_id = uuid, session_id = s, content = S c,
                      created_at = now, seq = getMaxSeq db s + 1, local_id = lo\<rparr>"
  have ins: "insert_message uuid s (Some (S c)) now (getMaxSeq db s + 1) lo db
      = (Inr (), db\<lparr>messages := messages db @ [?row]\<rparr>)"
    by (rule insert_message_ok [OF assms(3,2,5)])
  have f: "find (\<lambda>r. row_id r = uuid) (messages db @ [?row]) = Some ?row"
    using find_None_notin [OF assms(3)] by (simp add: find_append_fresh)
  from assms(1) show ?thesis
    using assms(4) ins f by (auto simp: addMessage_def Let_def db_bind_def json_stringify_def)
qed

lemma addMessage_empty_local_id_replay:
  assumes "(s, Some []) \<in> set (map local_id_key (messages db))"
  shows "addMessage P S now uuid s c (Some []) db = (Inl ConstraintFailed, db)"
  using assms
  by (auto simp: addMessage_def Let_def db_bind_def insert_message_def split: option.splits)

text \<open>
  C6. Let the local id be non-empty. When the session already holds a message with the
  local id, \<^verbatim>\<open>addMessage\<close> returns that message (the row found by session and local id)
  and changes nothing. When it holds none, and the session exists, the fresh id is
  unused and the content is defined, \<^verbatim>\<open>addMessage\<close> appends exactly one row, with the
  session, the local id and \<^verbatim>\<open>seq\<close> one above the session's greatest, and returns it; the
  session's greatest \<^verbatim>\<open>seq\<close> is then one higher and the row is the only one with that
  session and local id. When one of the three conditions fails (for content
  \<^verbatim>\<open>undefined\<close> the text is missing), the insert is refused and nothing changes. So
  whenever a first call returns a message, that message has the session and local id
  asked for, and a second call with the same session and local id (whatever its
  content, clock reading and fresh id) returns the same message and changes nothing:
  after both calls the store holds one row more than before the first at most, and in
  that case the session's greatest \<^verbatim>\<open>seq\<close> has advanced by exactly one. Without a local
  id, and with the empty one, there is no lookup: every call that is not refused appends
  a row, and the replay of an empty local id is refused by the unique index.
\<close>

theorem addMessage_idempotent:
  assumes "l \<noteq> []"
  shows "(find (\<lambda>r. session_id r = s \<and> local_id r = Some l) (messages db) = Some r
            \<longrightarrow> addMessage P S now1 uuid1 s c1 (Some l) db = (Inr (toStoredMessage P r), db))
       \<and> (find (\<lambda>r. session_id r = s \<and> local_id r = Some l) (messages db) = None
             \<and> s \<in> set (sessions db) \<and> uuid1 \<notin> set (map row_id (messages db))
             \<and> c1 \<noteq> JUndefined
            \<longrightarrow> addMessage P S now1 uuid1 s c1 (Some l) db
                  = (Inr (toStoredMessage P
                       \<lparr>row_id = uuid1, session_id = s, content = S c1, created_at = now1,
                        seq = getMaxSeq db s + 1, local_id = Some l\<rparr>),
                     db\<lparr>messages := messages db @
                       [\<lparr>row_id = uuid1, session_id = s, content = S c1, created_at = now1,
                         seq = getMaxSeq db s + 1, local_id = Some l\<rparr>]\<rparr>)
                \<and> getMaxSeq (snd (addMessage P S now1 uuid1 s c1 (Some l) db)) s
                    = getMaxSeq db s + 1
                \<and> filter (\<lambda>r. session_id r = s \<and> local_id r = Some l)
                     (messages (snd (addMessage P S now1 uuid1 s c1 (Some l) db)))
                    = [\<lparr>row_id = uuid1, session_id = s, content = S c1, created_at = now1,
                         seq = getMaxSeq db s + 1, local_id = Some l\<rparr>])
       \<and> (find (\<lambda>r. session_id r = s \<and> local_id r = Some l) (messages db) = None
             \<and> \<not> (s \<in> set (sessions db) \<and> uuid1 \<notin> set (map row_id (messages db))
                    \<and> c1 \<noteq> JUndefined)
            \<longrightarrow> addMessage P S now1 uuid1 s c1 (Some l) db = (Inl ConstraintFailed, db))
       \<and> (addMessage P S now1 uuid1 s c1 (Some l) db = (Inr m, db1)
            \<longrightarrow> msg_sessionId m = s \<and> msg_localId m = Some l
                \<and> (\<exists>r'. find (\<lambda>r. session_id r = s \<and> local_id r = Some l) (messages db1) = Some r'
                         \<and> m = toStoredMessage P r')
                \<and> addMessage P S now2 uuid2 s c2 (Some l) db1 = (Inr m, db1)
                \<and> (db1 = db
                    \<or> db1 = db\<lparr>messages := messages db @
                         [\<lparr>row_id = uuid1, session_id = s, content = S c1, created_at = now1,
                           seq = getMaxSeq db s + 1, local_id = Some l\<rparr>]\<rparr>
                      \<and> getMaxSeq (snd (addMessage P S now2 uuid2 s c2 (Some l) db1)) s
                          = getMaxSeq db s + 1))
       \<and> ((lo = None \<or> lo = Some []) \<and> s \<in> set (sessions db)
             \<and> uuid1 \<notin> set (map row_id (messages db)) \<and> c1 \<noteq> JUndefined
             \<and> (s, Some []) \<notin> set (map local_id_key (messages db))
            \<longrightarrow> addMessage P S now1 uuid1 s c1 lo db
                  = (Inr (toStoredMessage P
                       \<lparr>row_id = uuid1, session_id = s, content = S c1, created_at = now1,
                        seq = getMaxSeq db s + 1, local_id = lo\<rparr>),
                     db\<lparr>messages := messages db @
                       [\<lparr>row_id = uuid1, session_id = s, content = S c1, created_at = now1,
                         seq = getMaxSeq db s + 1, local_id = lo\<rparr>]\<rparr>))
       \<and> ((s, Some []) \<in> set (map local_id_key (messages db))
            \<longrightarrow> addMessage P S now1 uuid1 s c1 (Some []) db = (Inl ConstraintFailed, db))"
proof (intro conjI impI)
  let ?row = "\<lparr>row_id = uuid1, session_id = s, content = S c1, created_at = now1,
               seq = getMaxSeq db s + 1, local_id = Some l\<rparr>"
  let ?K = "\<lambda>r. session_id r = s \<and> local_id r = Some l"
  {
    assume "find ?K (messages db) = Some r"
    then show "addMessage P S now1 uuid1 s c1 (Some l) db = (Inr (toStoredMessage P r), db)"
      by (rule addMessage_existing [OF assms])
  }
  {
    assume a: "find ?K (messages db) = None
             \<and> s \<in> set (sessions db) \<and> uuid1 \<notin> set (map row_id (messages db))
             \<and> c1 \<noteq> JUndefined"
    then show first: "addMessage P S now1 uuid1 s c1 (Some l) db
        = (Inr (toStoredMessage P ?row), db\<lparr>messages := messages db @ [?row]\<rparr>)"
      by (intro addMessage_fresh [OF assms]) simp_all
    show "getMaxSeq (snd (addMessage P S now1 uuid1 s c1 (Some l) db)) s = getMaxSeq db s + 1"
      unfolding first snd_conv by (rule getMaxSeq_next) simp_all
    from a have "filter ?K (messages db) = []" by (simp add: find_None_filter)
    then show "filter ?K (messages (snd (addMessage P S now1 uuid1 s c1 (Some l) db))) = [?row]"
      unfolding first snd_conv by simp
  }
  {
    assume "find ?K (messages db) = None
             \<and> \<not> (s \<in> set (sessions db) \<and> uuid1 \<notin> set (map row_id (messages db))
                    \<and> c1 \<noteq> JUndefined)"
    then show "addMessage P S now1 uuid1 s c1 (Some l) db = (Inl ConstraintFailed, db)"
      by (intro addMessage_refused [OF assms]) simp_all
  }
  {
    assume a: "(lo = None \<or> lo = Some []) \<and> s \<in> set (sessions db)
             \<and> uuid1 \<notin> set (map row_id (messages db)) \<and> c1 \<noteq> JUndefined
             \<and> (s, Some []) \<notin> set (map local_id_key (messages db))"
    then have "lo \<noteq> None \<longrightarrow> (s, lo) \<notin> set (map local_id_key (messages db))" by auto
    with a show "addMessage P S now1 uuid1 s c1 lo db
        = (Inr (toStoredMessage P
             \<lparr>row_id = uuid1, session_id = s, content = S c1, created_at = now1,
              seq = getMaxSeq db s + 1, local_id = lo\<rparr>),
           db\<lparr>messages := messages db @
             [\<lparr>row_id = uuid1, session_id = s, content = S c1, created_at = now1,
               seq = getMaxSeq db s + 1, local_id = lo\<rparr>]\<rparr>)"
      by (intro addMessage_no_lookup) simp_all
  }
  {
    assume "(s, Some []) \<in> set (map local_id_key (messages db))"
    then show "addMessage P S now1 uuid1 s c1 (Some []) db = (Inl ConstraintFailed, db)"
      by (rule addMessage_empty_local_id_replay)
  }
  assume first: "addMessage P S now1 uuid1 s c1 (Some l) db = (Inr m, db1)"
  have all: "msg_sessionId m = s \<and> msg_localId m = Some l
      \<and> (\<exists>r'. find ?K (messages db1) = Some r' \<and> m = toStoredMessage P r')
      \<and> addMessage P S now2 uuid2 s c2 (Some l) db1 = (Inr m, db1)
      \<and> (db1 = db
          \<or> db1 = db\<lparr>messages := messages db @ [?row]\<rparr>
            \<and> getMaxSeq (snd (addMessage P S now2 uuid2 s c2 (Some l) db1)) s
                = getMaxSeq db s + 1)"
  proof (cases "find ?K (messages db)")
    case (Some r)
    with first assms have m: "m = toStoredMessage P r" and d: "db1 = db"
      by (simp_all add: addMessage_existing)
    from find_Some_key [OF Some] have "session_id r = s" "local_id r = Some l" by simp_all
    then have "msg_sessionId m = s" "msg_localId m = Some l"
      by (simp_all add: m toStoredMessage_def)
    moreover have "addMessage P S now2 uuid2 s c2 (Some l) db1 = (Inr m, db1)"
      unfolding m d by (rule addMessage_existing [OF assms Some])
    ultimately show ?thesis using Some m d by blast
  next
    case None
    have ok: "s \<in> set (sessions db) \<and> uuid1 \<notin> set (map row_id (messages db)) \<and> c1 \<noteq> JUndefined"
    proof (rule ccontr)
      assume "\<not> ?thesis"
      then have "addMessage P S now1 uuid1 s c1 (Some l) db = (Inl ConstraintFailed, db)"
        by (rule addMessage_refused [OF assms None])
      with first show False by simp
    qed
    then have "addMessage P S now1 uuid1 s c1 (Some l) db
        = (Inr (toStoredMessage P ?row), db\<lparr>messages := messages db @ [?row]\<rparr>)"
      by (intro addMessage_fresh [OF assms None]) simp_all
    with first have m: "m = toStoredMessage P ?row"
      and d: "db1 = db\<lparr>messages := messages db @ [?row]\<rparr>"
      by simp_all
    have f: "find ?K (messages db1) = Some ?row"
      using None by (simp add: d find_append_fresh)
    have second: "addMessage P S now2 uuid2 s c2 (Some l) db1 = (Inr m, db1)"
      unfolding m by (rule addMessage_existing [OF assms f])
    have g: "getMaxSeq db1 s = getMaxSeq db s + 1"
      unfolding d by (rule getMaxSeq_next) simp_all
    have "msg_sessionId m = s" "msg_localId m = Some l"
      by (simp_all add: m toStoredMessage_def)
    then show ?thesis using f m second d g by simp
  qed
  from all show "msg_sessionId m = s" by blast
  from all show "msg_localId m = Some l" by blast
  from all show "\<exists>r'. find ?K (messages db1) = Some r' \<and> m = toStoredMessage P r'" by blast
  from all show "addMessage P S now2 uuid2 s c2 (Some l) db1 = (Inr m, db1)" by blast
  from all show "db1 = db
          \<or> db1 = db\<lparr>messages := messages db @ [?row]\<rparr>
            \<and> getMaxSeq (snd (addMessage P S now2 uuid2 s c2 (Some l) db1)) s
                = getMaxSeq db s + 1"
    by blast
qed

lemma merge_example_lookup:
  "find (\<lambda>r. session_id r = ''B'' \<and> local_id r = Some ''l1'') (messages merge_example)
     = Some \<lparr>row_id = ''b1'', session_id = ''B'', content = ''{}'', created_at = 20, seq = 1,
             local_id = Some ''l1''\<rparr>"
  "find (\<lambda>r. session_id r = ''B'' \<and> local_id r = Some ''l9'') (messages merge_example) = None"
  "''B'' \<in> set (sessions merge_example)"
  "''b3'' \<notin> set (map row_id (messages merge_example))"
  "getMaxSeq merge_example ''B'' = 2"
  by (simp_all add: merge_example_def getMaxSeq_def)

theorem addMessage_idempotent_witness:
  "''l1'' \<noteq> [] \<and> ''l9'' \<noteq> []
   \<and> find (\<lambda>r. session_id r = ''B'' \<and> local_id r = Some ''l1'') (messages merge_example)
       = Some \<lparr>row_id = ''b1'', session_id = ''B'', content = ''{}'', created_at = 20, seq = 1,
               local_id = Some ''l1''\<rparr>
   \<and> addMessage JStr (\<lambda>v. ''{}'') 100 ''b3'' ''B'' JNull (Some ''l1'') merge_example
       = (Inr \<lparr>msg_id = ''b1'', msg_sessionId = ''B'', msg_content = JStr ''{}'',
               msg_createdAt = 20, msg_seq = 1, msg_localId = Some ''l1''\<rparr>,
          merge_example)
   \<and> find (\<lambda>r. session_id r = ''B'' \<and> local_id r = Some ''l9'') (messages merge_example) = None
   \<and> ''B'' \<in> set (sessions merge_example)
   \<and> ''b3'' \<notin> set (map row_id (messages merge_example))
   \<and> JNull \<noteq> JUndefined
   \<and> getMaxSeq merge_example ''B'' = 2
   \<and> addMessage JStr (\<lambda>v. ''{}'') 100 ''b3'' ''B'' JNull (Some ''l9'') merge_example
       = (Inr \<lparr>msg_id = ''b3'', msg_sessionId = ''B'', msg_content = JStr ''{}'',
               msg_createdAt = 100, msg_seq = 3, msg_localId = Some ''l9''\<rparr>,
          merge_example\<lparr>messages := messages merge_example @
            [\<lparr>row_id = ''b3'', session_id = ''B'', content = ''{}'', created_at = 100, seq = 3,
              local_id = Some ''l9''\<rparr>]\<rparr>)
   \<and> addMessage JStr (\<lambda>v. ''{}'') 200 ''b4'' ''B'' (JBool True) (Some ''l9'')
         (merge_example\<lparr>messages := messages merge_example @
            [\<lparr>row_id = ''b3'', session_id = ''B'', content = ''{}'', created_at = 100, seq = 3,
              local_id = Some ''l9''\<rparr>]\<rparr>)
       = (Inr \<lparr>msg_id = ''b3'', msg_sessionId = ''B'', msg_content = JStr ''{}'',
               msg_createdAt = 100, msg_seq = 3, msg_localId = Some ''l9''\<rparr>,
          merge_example\<lparr>messages := messages merge_example @
            [\<lparr>row_id = ''b3'', session_id = ''B'', content = ''{}'', created_at = 100, seq = 3,
              local_id = Some ''l9''\<rparr>]\<rparr>)
   \<and> getMaxSeq (merge_example\<lparr>messages := messages merge_example @
            [\<lparr>row_id = ''b3'', session_id = ''B'', content = ''{}'', created_at = 100, seq = 3,
              local_id = Some ''l9''\<rparr>]\<rparr>) ''B'' = 3
   \<and> addMessage JStr (\<lambda>v. ''{}'') 100 ''b3'' ''B'' JUndefined (Some ''l9'') merge_example
       = (Inl ConstraintFailed, merge_example)
   \<and> (''B'', Some []) \<notin> set (map local_id_key (messages merge_example))
   \<and> addMessage JStr (\<lambda>v. ''{}'') 100 ''b3'' ''B'' JNull None merge_example
       = (Inr \<lparr>msg_id = ''b3'', msg_sessionId = ''B'', msg_content = JStr ''{}'',
               msg_createdAt = 100, msg_seq = 3, msg_localId = None\<rparr>,
          merge_example\<lparr>messages := messages merge_example @
            [\<lparr>row_id = ''b3'', session_id = ''B'', content = ''{}'', created_at = 100, seq = 3,
              local_id = None\<rparr>]\<rparr>)"
proof -
  let ?b1 = "\<lparr>row_id = ''b1'', session_id = ''B'', content = ''{}'', created_at = 20, seq = 1,
              local_id = Some ''l1''\<rparr>"
  let ?b3 = "\<lparr>row_id = ''b3'', session_id = ''B'', content = ''{}'', created_at = 100, seq = 3,
              local_id = Some ''l9''\<rparr>"
  let ?m1 = "\<lparr>msg_id = ''b1'', msg_sessionId = ''B'', msg_content = JStr ''{}'',
               msg_createdAt = 20, msg_seq = 1, msg_localId = Some ''l1''\<rparr>"
  let ?m3 = "\<lparr>msg_id = ''b3'', msg_sessionId = ''B'', msg_content = JStr ''{}'',
               msg_createdAt = 100, msg_seq = 3, msg_localId = Some ''l9''\<rparr>"
  let ?db1 = "merge_example\<lparr>messages := messages merge_example @ [?b3]\<rparr>"
  have l1: "''l1'' \<noteq> []" and l9: "''l9'' \<noteq> []" and c: "JNull \<noteq> JUndefined" by simp_all
  note ex = merge_example_lookup
  have t1: "toStoredMessage JStr ?b1 = ?m1" and t3: "toStoredMessage JStr ?b3 = ?m3"
    by (simp_all add: toStoredMessage_def)
  from addMessage_idempotent [OF l1, where s = "''B''" and db = merge_example and r = ?b1
      and P = JStr and S = "\<lambda>v. ''{}''" and ?now1.0 = 100 and ?uuid1.0 = "''b3''"
      and ?c1.0 = JNull, THEN conjunct1] ex(1)
  have existing: "addMessage JStr (\<lambda>v. ''{}'') 100 ''b3'' ''B'' JNull (Some ''l1'') merge_example
       = (Inr ?m1, merge_example)"
    by (simp only: t1)
  from addMessage_idempotent [OF l9, where s = "''B''" and db = merge_example
      and P = JStr and S = "\<lambda>v. ''{}''" and ?now1.0 = 100 and ?uuid1.0 = "''b3''"
      and ?c1.0 = JNull, THEN conjunct2, THEN conjunct1] ex(2,3,4) c
  have fresh: "addMessage JStr (\<lambda>v. ''{}'') 100 ''b3'' ''B'' JNull (Some ''l9'') merge_example
       = (Inr (toStoredMessage JStr
            \<lparr>row_id = ''b3'', session_id = ''B'', content = ''{}'', created_at = 100,
             seq = getMaxSeq merge_example ''B'' + 1, local_id = Some ''l9''\<rparr>),
          merge_example\<lparr>messages := messages merge_example @
            [\<lparr>row_id = ''b3'', session_id = ''B'', content = ''{}'', created_at = 100,
              seq = getMaxSeq merge_example ''B'' + 1, local_id = Some ''l9''\<rparr>]\<rparr>)"
    by blast
  have first: "addMessage JStr (\<lambda>v. ''{}'') 100 ''b3'' ''B'' JNull (Some ''l9'') merge_example
       = (Inr ?m3, ?db1)"
    using fresh unfolding ex(5) by (simp only: t3 [symmetric]) simp
  from addMessage_idempotent [OF l9, where s = "''B''" and db = merge_example
      and P = JStr and S = "\<lambda>v. ''{}''" and ?now1.0 = 100 and ?uuid1.0 = "''b3''"
      and ?c1.0 = JNull and m = ?m3 and ?db1.0 = ?db1 and ?now2.0 = 200
      and ?uuid2.0 = "''b4''" and ?c2.0 = "JBool True",
      THEN conjunct2, THEN conjunct2, THEN conjunct2, THEN conjunct1, THEN mp, OF first]
  have second: "addMessage JStr (\<lambda>v. ''{}'') 200 ''b4'' ''B'' (JBool True) (Some ''l9'') ?db1
       = (Inr ?m3, ?db1)"
    by blast
  have g: "getMaxSeq ?db1 ''B'' = 3"
    by (simp add: merge_example_def getMaxSeq_def)
  from addMessage_idempotent [OF l9, where s = "''B''" and db = merge_example
      and P = JStr and S = "\<lambda>v. ''{}''" and ?now1.0 = 100 and ?uuid1.0 = "''b3''"
      and ?c1.0 = JUndefined, THEN conjunct2, THEN conjunct2, THEN conjunct1] ex(2)
  have refused: "addMessage JStr (\<lambda>v. ''{}'') 100 ''b3'' ''B'' JUndefined (Some ''l9'') merge_example
       = (Inl ConstraintFailed, merge_example)"
    by blast
  have e: "(''B'', Some []) \<notin> set (map local_id_key (messages merge_example))"
    by (simp add: merge_example_def local_id_key_def)
  from addMessage_idempotent [OF l9, where s = "''B''" and db = merge_example
      and P = JStr and S = "\<lambda>v. ''{}''" and ?now1.0 = 100 and ?uuid1.0 = "''b3''"
      and ?c1.0 = JNull and lo = None,
      THEN conjunct2, THEN conjunct2, THEN conjunct2, THEN conjunct2, THEN conjunct1]
    ex(3,4) c e
  have "addMessage JStr (\<lambda>v. ''{}'') 100 ''b3'' ''B'' JNull None merge_example
       = (Inr (toStoredMessage JStr
            \<lparr>row_id = ''b3'', session_id = ''B'', content = ''{}'', created_at = 100,
             seq = getMaxSeq merge_example ''B'' + 1, local_id = None\<rparr>),
          merge_example\<lparr>messages := messages merge_example @
            [\<lparr>row_id = ''b3'', session_id = ''B'', content = ''{}'', created_at = 100,
              seq = getMaxSeq merge_example ''B'' + 1, local_id = None\<rparr>]\<rparr>)"
    by blast
  then have plain: "addMessage JStr (\<lambda>v. ''{}'') 100 ''b3'' ''B'' JNull None merge_example
       = (Inr \<lparr>msg_id = ''b3'', msg_sessionId = ''B'', msg_content = JStr ''{}'',
               msg_createdAt = 100, msg_seq = 3, msg_localId = None\<rparr>,
          merge_example\<lparr>messages := messages merge_example @
            [\<lparr>row_id = ''b3'', session_id = ''B'', content = ''{}'', created_at = 100, seq = 3,
              local_id = None\<rparr>]\<rparr>)"
    unfolding ex(5) by (simp add: toStoredMessage_def)
  show ?thesis
    using l1 l9 c ex existing first second g refused e plain by blast
qed

lemma in_set_option_list: "(l \<in> set (case la of None \<Rightarrow> [] | Some x \<Rightarrow> [x])) = (la = Some l)"
  by (cases la) auto

lemma session_local_ids_Nil: "session_local_ids [] s = []"
  by (simp add: session_local_ids_def)

lemma session_local_ids_Cons: "session_local_ids (a # rows) s =
     (if session_id a = s then (case local_id a of None \<Rightarrow> [] | Some l \<Rightarrow> [l]) else [])
       @ session_local_ids rows s"
  by (simp add: session_local_ids_def)

lemma set_session_local_ids:
  "(l \<in> set (session_local_ids rows s)) = (\<exists>r \<in> set rows. session_id r = s \<and> local_id r = Some l)"
proof (induction rows)
  case Nil
  show ?case by (simp add: session_local_ids_Nil)
next
  case (Cons a rows)
  show ?case
  proof (cases "session_id a = s")
    case True
    then show ?thesis
      using Cons by (auto simp: session_local_ids_Cons in_set_option_list)
  next
    case False
    then show ?thesis
      using Cons by (simp add: session_local_ids_Cons)
  qed
qed


lemma session_local_ids_shift:
  "session_local_ids (map (\<lambda>r. if session_id r = B then r\<lparr>seq := seq r + k\<rparr> else r) rows) s
     = session_local_ids rows s"
  by (induction rows) (simp_all add: session_local_ids_Nil session_local_ids_Cons)

lemma distinct_map_transfer:
  assumes "distinct (map f xs)"
    and "\<And>x y. x \<in> set xs \<Longrightarrow> y \<in> set xs \<Longrightarrow> h x = h y \<Longrightarrow> f x = f y"
  shows "distinct (map h xs)"
proof -
  from assms(1) have d: "distinct xs" and i: "inj_on f (set xs)"
    by (simp_all add: distinct_map)
  have "inj_on h (set xs)"
  proof (rule inj_onI)
    fix x y assume "x \<in> set xs" "y \<in> set xs" "h x = h y"
    then have "f x = f y" by (rule assms(2))
    with i \<open>x \<in> set xs\<close> \<open>y \<in> set xs\<close> show "x = y" by (simp add: inj_on_def)
  qed
  with d show ?thesis by (simp add: distinct_map)
qed

lemma merged_row_compose:
  assumes "A \<noteq> B"
  shows "(\<lambda>r. if session_id r = A then r\<lparr>session_id := B\<rparr> else r)
       ((\<lambda>r. if session_id r = A \<and> local_id r \<in> Some ` (set ids) then r\<lparr>local_id := None\<rparr> else r)
       ((\<lambda>r. if session_id r = B then r\<lparr>seq := seq r + k\<rparr> else r) r))
     = merged_row A B k ids r"
proof (cases "session_id r = A")
  case True
  with assms show ?thesis by (simp add: merged_row_def)
next
  case False
  then show ?thesis by (simp add: merged_row_def)
qed


lemma merged_row_session:
  "session_id (merged_row A B k ids r) = (if session_id r = A then B else session_id r)"
  by (simp add: merged_row_def)

lemma merged_row_local_id:
  "local_id (merged_row A B k ids r) =
     (if session_id r = A \<and> local_id r \<in> Some ` set ids then None else local_id r)"
  by (simp add: merged_row_def)

lemma merged_row_seq:
  "seq (merged_row A B k ids r) = (if session_id r \<noteq> A \<and> session_id r = B then seq r + k else seq r)"
  by (simp add: merged_row_def)

lemma merged_key_injective:
  assumes ne: "A \<noteq> B" and x: "x \<in> set rows" and y: "y \<in> set rows"
    and lx: "local_id (merged_row A B k (session_local_ids rows B) x) \<noteq> None"
    and ly: "local_id (merged_row A B k (session_local_ids rows B) y) \<noteq> None"
    and eq: "local_id_key (merged_row A B k (session_local_ids rows B) x)
           = local_id_key (merged_row A B k (session_local_ids rows B) y)"
  shows "local_id_key x = local_id_key y"
proof -
  let ?ids = "session_local_ids rows B"
  from lx have kx: "local_id (merged_row A B k ?ids x) = local_id x"
    by (auto simp: merged_row_local_id split: if_splits)
  from ly have ky: "local_id (merged_row A B k ?ids y) = local_id y"
    by (auto simp: merged_row_local_id split: if_splits)
  from eq have l: "local_id x = local_id y"
    and s: "session_id (merged_row A B k ?ids x) = session_id (merged_row A B k ?ids y)"
    by (simp_all add: local_id_key_def kx ky)
  from lx kx obtain v where v: "local_id x = Some v" by (cases "local_id x") simp_all
  have clash: "session_id p = A \<Longrightarrow> session_id q = B \<Longrightarrow> p \<in> set rows \<Longrightarrow> q \<in> set rows
      \<Longrightarrow> local_id p = Some v \<Longrightarrow> local_id q = Some v
      \<Longrightarrow> local_id (merged_row A B k ?ids p) = None" for p q
  proof -
    assume a: "session_id p = A" "session_id q = B" "p \<in> set rows" "q \<in> set rows"
      "local_id p = Some v" "local_id q = Some v"
    then have "v \<in> set ?ids" by (auto simp: set_session_local_ids)
    with a show ?thesis by (simp add: merged_row_local_id)
  qed
  have "session_id x = session_id y"
  proof (cases "session_id x = A")
    case xa: True
    show ?thesis
    proof (cases "session_id y = A")
      case True
      with xa show ?thesis by simp
    next
      case False
      with xa s have "session_id y = B" by (simp add: merged_row_session)
      from clash [OF xa this x y v] l v lx show ?thesis by simp
    qed
  next
    case xa: False
    show ?thesis
    proof (cases "session_id y = A")
      case True
      with xa s have "session_id x = B" by (simp add: merged_row_session)
      from clash [OF True this y x] l v ly show ?thesis by simp
    next
      case False
      with xa s show ?thesis by (simp add: merged_row_session)
    qed
  qed
  with l show ?thesis by (simp add: local_id_key_def)
qed

lemma filter_filter_implied:
  assumes "\<And>x. x \<in> set xs \<Longrightarrow> Q x \<Longrightarrow> P x"
  shows "filter Q xs = filter Q (filter P xs)"
  using assms by (induction xs) auto

lemma unique_after_merge:
  assumes "A \<noteq> B" and "unique_local_ids rows"
  shows "unique_local_ids (map (merged_row A B k (session_local_ids rows B)) rows)"
proof -
  let ?g = "merged_row A B k (session_local_ids rows B)"
  let ?P = "\<lambda>r. local_id r \<noteq> None"
  let ?Q = "\<lambda>r. local_id (?g r) \<noteq> None"
  have f: "filter ?P (map ?g rows) = map ?g (filter ?Q rows)"
    by (simp add: filter_map comp_def)
  have sub: "filter ?Q rows = filter ?Q (filter ?P rows)"
    by (rule filter_filter_implied) (simp add: merged_row_local_id split: if_splits)
  have d: "distinct (map local_id_key (filter ?Q rows))"
    using assms(2) unfolding unique_local_ids_def
    by (subst sub) (rule distinct_map_filter)
  have "distinct (map (\<lambda>r. local_id_key (?g r)) (filter ?Q rows))"
  proof (rule distinct_map_transfer [OF d])
    fix x y
    assume x: "x \<in> set (filter ?Q rows)" and y: "y \<in> set (filter ?Q rows)"
      and eq: "local_id_key (?g x) = local_id_key (?g y)"
    from x y have "x \<in> set rows" "y \<in> set rows" "?Q x" "?Q y" by simp_all
    with assms(1) eq show "local_id_key x = local_id_key y"
      by (intro merged_key_injective [of A B x rows y k])
  qed
  then show ?thesis
    unfolding unique_local_ids_def f by (simp only: map_map comp_def)
qed


lemma shift_step:
  assumes "\<not> (n > 0 \<and> m > 0) \<Longrightarrow>
     map (\<lambda>r. if session_id r = B then r\<lparr>seq := seq r + m\<rparr> else r) (messages db) = messages db"
  shows "(if n > 0 \<and> m > 0 then shift_seq None m B else db_return ()) db =
     (Inr (), db\<lparr>messages :=
        map (\<lambda>r. if session_id r = B then r\<lparr>seq := seq r + m\<rparr> else r) (messages db)\<rparr>)"
proof (cases "n > 0 \<and> m > 0")
  case True
  then show ?thesis by (simp add: shift_seq_def)
next
  case False
  with assms show ?thesis by (auto simp: db_return_def)
qed

lemma clear_step:
  "(if length ids > 0 then clear_local_ids None A ids else db_return ()) db =
     (Inr (), db\<lparr>messages :=
        map (\<lambda>r. if session_id r = A \<and> local_id r \<in> Some ` set ids
                  then r\<lparr>local_id := None\<rparr> else r) (messages db)\<rparr>)"
proof (cases ids)
  case Nil
  then show ?thesis by (simp add: db_return_def)
next
  case (Cons a list)
  then show ?thesis by (simp add: clear_local_ids_def)
qed

lemma merged_row_collisions:
  assumes "r \<in> set rows"
  shows "merged_row A B k (remdups (filter (\<lambda>l. l \<in> set (session_local_ids rows A))
             (session_local_ids rows B))) r
       = merged_row A B k (session_local_ids rows B) r"
proof (cases "session_id r = A")
  case False
  then show ?thesis by (simp add: merged_row_def)
next
  case True
  have "(local_id r \<in> Some ` set (remdups (filter (\<lambda>l. l \<in> set (session_local_ids rows A))
             (session_local_ids rows B))))
      = (local_id r \<in> Some ` set (session_local_ids rows B))"
  proof (cases "local_id r")
    case None
    then show ?thesis by auto
  next
    case (Some l)
    with assms True have "l \<in> set (session_local_ids rows A)"
      unfolding set_session_local_ids by blast
    with Some show ?thesis by auto
  qed
  with True show ?thesis by (simp add: merged_row_def)
qed


lemma filter_session_shift:
  "filter (\<lambda>r. session_id r = A)
     (map (\<lambda>r. if session_id r = A \<and> local_id r \<in> Some ` set ids then r\<lparr>local_id := None\<rparr> else r)
       (map (\<lambda>r. if session_id r = B then r\<lparr>seq := seq r + k\<rparr> else r) rows)) = [] \<longleftrightarrow>
   filter (\<lambda>r. session_id r = A) rows = []"
  by (induction rows) auto

lemma length_filter_session_shift:
  "length (filter (\<lambda>r. session_id r = A)
     (map (\<lambda>r. if session_id r = A \<and> local_id r \<in> Some ` set ids then r\<lparr>local_id := None\<rparr> else r)
       (map (\<lambda>r. if session_id r = B then r\<lparr>seq := seq r + k\<rparr> else r) rows))) =
   length (filter (\<lambda>r. session_id r = A) rows)"
  by (induction rows) auto

lemma merged_rows_eq:
  assumes "A \<noteq> B"
  shows "map (\<lambda>r. if session_id r = A then r\<lparr>session_id := B\<rparr> else r)
     (map (\<lambda>r. if session_id r = A
                   \<and> local_id r \<in> Some ` set (remdups (filter (\<lambda>l. l \<in> set (session_local_ids rows A))
                        (session_local_ids rows B)))
               then r\<lparr>local_id := None\<rparr> else r)
       (map (\<lambda>r. if session_id r = B then r\<lparr>seq := seq r + k\<rparr> else r) rows))
    = map (merged_row A B k (session_local_ids rows B)) rows"
proof -
  have "map (\<lambda>r. if session_id r = A then r\<lparr>session_id := B\<rparr> else r)
     (map (\<lambda>r. if session_id r = A
                   \<and> local_id r \<in> Some ` set (remdups (filter (\<lambda>l. l \<in> set (session_local_ids rows A))
                        (session_local_ids rows B)))
               then r\<lparr>local_id := None\<rparr> else r)
       (map (\<lambda>r. if session_id r = B then r\<lparr>seq := seq r + k\<rparr> else r) rows))
    = map (merged_row A B k (remdups (filter (\<lambda>l. l \<in> set (session_local_ids rows A))
                        (session_local_ids rows B)))) rows"
    unfolding map_map comp_def merged_row_compose [OF assms] ..
  also have "\<dots> = map (merged_row A B k (session_local_ids rows B)) rows"
    by (rule map_cong [OF refl]) (rule merged_row_collisions)
  finally show ?thesis .
qed

lemma merge_transaction_ok:
  assumes ne: "A \<noteq> B" and snap: "snapshot db = None"
    and uniq: "unique_local_ids (messages db)"
    and fk: "filter (\<lambda>r. session_id r = A) (messages db) \<noteq> [] \<Longrightarrow> B \<in> set (sessions db)"
    and sh: "\<not> (n > 0 \<and> m > 0) \<Longrightarrow>
       map (\<lambda>r. if session_id r = B then r\<lparr>seq := seq r + m\<rparr> else r) (messages db) = messages db"
  shows "merge_transaction None A B m n db =
     (Inr \<lparr>moved = length (filter (\<lambda>r. session_id r = A) (messages db)),
           oldMaxSeq = m, newMaxSeq = n\<rparr>,
      db\<lparr>messages := map (merged_row A B m (session_local_ids (messages db) B)) (messages db)\<rparr>)"
proof -
  let ?rows = "messages db"
  let ?shift = "\<lambda>r. if session_id r = B then r\<lparr>seq := seq r + m\<rparr> else r"
  let ?c = "remdups (filter (\<lambda>l. l \<in> set (session_local_ids ?rows A)) (session_local_ids ?rows B))"
  let ?clear = "\<lambda>r. if session_id r = A \<and> local_id r \<in> Some ` set ?c then r\<lparr>local_id := None\<rparr> else r"
  let ?d1 = "db\<lparr>snapshot := Some ?rows\<rparr>"
  let ?d2 = "?d1\<lparr>messages := map ?shift ?rows\<rparr>"
  let ?d3 = "?d2\<lparr>messages := map ?clear (map ?shift ?rows)\<rparr>"
  let ?final = "map (merged_row A B m (session_local_ids ?rows B)) ?rows"
  let ?d4 = "?d3\<lparr>messages := ?final\<rparr>"
  have s1: "exec_begin None db = (Inr (), ?d1)"
    using snap by (simp add: exec_begin_def)
  have s2: "(if n > 0 \<and> m > 0 then shift_seq None m B else db_return ()) ?d1 = (Inr (), ?d2)"
    using sh by (subst shift_step) simp_all
  have s3: "select_collisions None B A ?d2 = (Inr ?c, ?d2)"
    by (simp add: select_collisions_def session_local_ids_shift)
  have s4: "(if length ?c > 0 then clear_local_ids None A ?c else db_return ()) ?d2 = (Inr (), ?d3)"
    by (subst clear_step) simp
  have m3: "messages ?d3 = map ?clear (map ?shift ?rows)" by simp
  have r4: "map (\<lambda>r. if session_id r = A then r\<lparr>session_id := B\<rparr> else r) (messages ?d3) = ?final"
    unfolding m3 by (rule merged_rows_eq [OF ne])
  have ch: "filter (\<lambda>r. session_id r = A) (messages ?d3) = [] \<longleftrightarrow>
      filter (\<lambda>r. session_id r = A) ?rows = []"
    unfolding m3 by (rule filter_session_shift)
  have len: "length (filter (\<lambda>r. session_id r = A) (messages ?d3)) =
      length (filter (\<lambda>r. session_id r = A) ?rows)"
    unfolding m3 by (rule length_filter_session_shift)
  have u: "unique_local_ids ?final"
    by (rule unique_after_merge [OF ne uniq])
  have s5: "reassign_session None B A ?d3
      = (Inr (length (filter (\<lambda>r. session_id r = A) ?rows)), ?d4)"
    unfolding reassign_session_def Let_def r4 len ch
    using fk u by auto
  have s6: "exec_commit None ?d4 = (Inr (), db\<lparr>messages := ?final\<rparr>)"
    using snap by (simp add: exec_commit_def)
  show ?thesis
    unfolding merge_transaction_def
    by (simp only: db_bind_def s1 s2 s3 s4 s5 s6 db_return_def prod.case sum.case)
qed


lemma db_bind_Inl:
  assumes "db_bind m f d = (Inl e, d')"
  shows "m d = (Inl e, d') \<or> (\<exists>v d1. m d = (Inr v, d1) \<and> f v d1 = (Inl e, d'))"
proof (cases "m d")
  case (Pair r d1)
  with assms show ?thesis by (cases r) (simp_all add: db_bind_def)
qed

lemma exec_begin_cases:
  assumes "snapshot db = None" and "exec_begin fault db = (r, d)"
  shows "(\<exists>e. r = Inl e) \<and> d = db
       \<or> r = Inr () \<and> sessions d = sessions db \<and> snapshot d = Some (messages db)"
  using assms by (auto simp: exec_begin_def split: if_splits)

lemma shift_keeps_transaction:
  assumes "(if c then shift_seq fault k s else db_return ()) d = (r, d')"
  shows "sessions d' = sessions d \<and> snapshot d' = snapshot d"
  using assms by (auto simp: shift_seq_def db_return_def split: if_splits)

lemma select_keeps_transaction:
  assumes "select_collisions fault t f d = (r, d')"
  shows "d' = d"
  using assms by (auto simp: select_collisions_def split: if_splits)

lemma clear_keeps_transaction:
  assumes "(if c then clear_local_ids fault s ids else db_return ()) d = (r, d')"
  shows "sessions d' = sessions d \<and> snapshot d' = snapshot d"
  using assms by (auto simp: clear_local_ids_def db_return_def split: if_splits)

lemma reassign_keeps_transaction:
  assumes "reassign_session fault t f d = (r, d')"
  shows "sessions d' = sessions d \<and> snapshot d' = snapshot d"
  using assms by (auto simp: reassign_session_def Let_def split: if_splits)

lemma commit_Inl:
  assumes "exec_commit fault d = (Inl e, d')"
  shows "d' = d"
  using assms by (auto simp: exec_commit_def split: if_splits)

lemma merge_transaction_Inl:
  assumes snap: "snapshot db = None"
    and fail: "merge_transaction fault A B m n db = (Inl e, d)"
  shows "d = db \<or> sessions d = sessions db \<and> snapshot d = Some (messages db)"
proof -
  let ?T = "\<lambda>x. sessions x = sessions db \<and> snapshot x = Some (messages db)"
  from fail [unfolded merge_transaction_def, THEN db_bind_Inl]
  show ?thesis
  proof (elim disjE exE conjE)
    assume "exec_begin fault db = (Inl e, d)"
    with exec_begin_cases [OF snap this] show ?thesis by simp
  next
    fix v1 d1
    assume b: "exec_begin fault db = (Inr v1, d1)"
      and rest: "db_bind (if 0 < n \<and> 0 < m then shift_seq fault m B else db_return ())
         (\<lambda>_. db_bind (select_collisions fault B A)
           (\<lambda>collisions. db_bind (if 0 < length collisions
                 then clear_local_ids fault A collisions else db_return ())
             (\<lambda>_. db_bind (reassign_session fault B A)
               (\<lambda>changes. db_bind (exec_commit fault)
                 (\<lambda>_. db_return \<lparr>moved = changes, oldMaxSeq = m, newMaxSeq = n\<rparr>))))) d1
        = (Inl e, d)"
    from exec_begin_cases [OF snap b] have t1: "?T d1" by simp
    from rest [THEN db_bind_Inl] show ?thesis
    proof (elim disjE exE conjE)
      assume "(if 0 < n \<and> 0 < m then shift_seq fault m B else db_return ()) d1 = (Inl e, d)"
      from shift_keeps_transaction [OF this] t1 show ?thesis by simp
    next
      fix v2 d2
      assume s: "(if 0 < n \<and> 0 < m then shift_seq fault m B else db_return ()) d1 = (Inr v2, d2)"
        and rest: "db_bind (select_collisions fault B A)
           (\<lambda>collisions. db_bind (if 0 < length collisions
                 then clear_local_ids fault A collisions else db_return ())
             (\<lambda>_. db_bind (reassign_session fault B A)
               (\<lambda>changes. db_bind (exec_commit fault)
                 (\<lambda>_. db_return \<lparr>moved = changes, oldMaxSeq = m, newMaxSeq = n\<rparr>)))) d2
          = (Inl e, d)"
      from shift_keeps_transaction [OF s] t1 have t2: "?T d2" by simp
      from rest [THEN db_bind_Inl] show ?thesis
      proof (elim disjE exE conjE)
        assume "select_collisions fault B A d2 = (Inl e, d)"
        from select_keeps_transaction [OF this] t2 show ?thesis by simp
      next
        fix c d3
        assume s: "select_collisions fault B A d2 = (Inr c, d3)"
          and rest: "db_bind (if 0 < length c then clear_local_ids fault A c else db_return ())
             (\<lambda>_. db_bind (reassign_session fault B A)
               (\<lambda>changes. db_bind (exec_commit fault)
                 (\<lambda>_. db_return \<lparr>moved = changes, oldMaxSeq = m, newMaxSeq = n\<rparr>))) d3
            = (Inl e, d)"
        from select_keeps_transaction [OF s] t2 have t3: "?T d3" by simp
        from rest [THEN db_bind_Inl] show ?thesis
        proof (elim disjE exE conjE)
          assume "(if 0 < length c then clear_local_ids fault A c else db_return ()) d3 = (Inl e, d)"
          from clear_keeps_transaction [OF this] t3 show ?thesis by simp
        next
          fix v4 d4
          assume s: "(if 0 < length c then clear_local_ids fault A c else db_return ()) d3 = (Inr v4, d4)"
            and rest: "db_bind (reassign_session fault B A)
               (\<lambda>changes. db_bind (exec_commit fault)
                 (\<lambda>_. db_return \<lparr>moved = changes, oldMaxSeq = m, newMaxSeq = n\<rparr>)) d4
              = (Inl e, d)"
          from clear_keeps_transaction [OF s] t3 have t4: "?T d4" by simp
          from rest [THEN db_bind_Inl] show ?thesis
          proof (elim disjE exE conjE)
            assume "reassign_session fault B A d4 = (Inl e, d)"
            from reassign_keeps_transaction [OF this] t4 show ?thesis by simp
          next
            fix ch d5
            assume s: "reassign_session fault B A d4 = (Inr ch, d5)"
              and rest: "db_bind (exec_commit fault)
                 (\<lambda>_. db_return \<lparr>moved = ch, oldMaxSeq = m, newMaxSeq = n\<rparr>) d5 = (Inl e, d)"
            from reassign_keeps_transaction [OF s] t4 have t5: "?T d5" by simp
            from rest [THEN db_bind_Inl] show ?thesis
            proof (elim disjE exE conjE)
              assume "exec_commit fault d5 = (Inl e, d)"
              from commit_Inl [OF this] t5 show ?thesis by simp
            next
              fix v6 d6
              assume "db_return \<lparr>moved = ch, oldMaxSeq = m, newMaxSeq = n\<rparr> d6 = (Inl e, d)"
              then show ?thesis by (simp add: db_return_def)
            qed
          qed
        qed
      qed
    qed
  qed
qed

lemma rollback_restores:
  assumes "sessions d = sessions db" and "snapshot db = None"
  shows "d\<lparr>messages := messages db, snapshot := None\<rparr> = (db :: database)"
  using assms by (intro database.equality) simp_all

lemma merge_all_or_nothing:
  assumes snap: "snapshot db = None"
    and fail: "mergeSessionMessages fault A B db = (Inl e, db')"
  shows "db' = db"
proof (cases "A = B \<or> fault = Some AtGetMaxSeq")
  case True
  with fail show ?thesis by (auto simp: mergeSessionMessages_def split: if_splits)
next
  case False
  obtain r d where t: "merge_transaction fault A B (getMaxSeq db A) (getMaxSeq db B) db = (r, d)"
    by (cases "merge_transaction fault A B (getMaxSeq db A) (getMaxSeq db B) db")
  show ?thesis
  proof (cases r)
    case (Inr res)
    with False t fail show ?thesis by (simp add: mergeSessionMessages_def Let_def)
  next
    case (Inl e0)
    with t merge_transaction_Inl [OF snap]
    have "d = db \<or> sessions d = sessions db \<and> snapshot d = Some (messages db)" by simp
    then show ?thesis
    proof
      assume "d = db"
      with False t Inl fail snap show ?thesis
        by (simp add: mergeSessionMessages_def Let_def exec_rollback_def)
    next
      assume "sessions d = sessions db \<and> snapshot d = Some (messages db)"
      with False t Inl fail snap show ?thesis
        by (auto simp: mergeSessionMessages_def Let_def exec_rollback_def rollback_restores)
    qed
  qed
qed


lemma getMaxSeq_gap_free:
  assumes "gap_free (messages db) s m"
  shows "getMaxSeq db s = int m"
proof (cases "m = 0")
  case True
  with assms show ?thesis by (simp add: gap_free_def getMaxSeq_def session_seqs_def)
next
  case False
  from assms have l: "length (session_seqs (messages db) s) = m"
    and st: "set (session_seqs (messages db) s) = {1 .. int m}"
    by (simp_all add: gap_free_def)
  from l False have ne: "session_seqs (messages db) s \<noteq> []" by auto
  have "Max {1 .. int m} = int m" using False by (intro Max_eqI) auto
  with ne st show ?thesis by (simp add: getMaxSeq_def session_seqs_def Let_def)
qed

lemma gap_free_no_rows:
  assumes "gap_free rows s 0"
  shows "filter (\<lambda>r. session_id r = s) rows = []"
  using assms by (simp add: gap_free_def session_seqs_def)

lemma shift_zero: "map (\<lambda>r. if session_id r = B then r\<lparr>seq := seq r + 0\<rparr> else r) rows = rows"
  by (induction rows) simp_all

lemma shift_no_rows:
  assumes "filter (\<lambda>r. session_id r = B) rows = []"
  shows "map (\<lambda>r. if session_id r = B then r\<lparr>seq := seq r + k\<rparr> else r) rows = rows"
  using assms by (induction rows) (auto split: if_splits)

lemma session_seqs_merged:
  assumes "A \<noteq> B"
  shows "set (session_seqs (map (merged_row A B k ids) rows) B)
       = set (session_seqs rows A) \<union> (\<lambda>q. q + k) ` set (session_seqs rows B)"
    and "length (session_seqs (map (merged_row A B k ids) rows) B)
       = length (session_seqs rows A) + length (session_seqs rows B)"
  using assms by (induction rows) (auto simp: session_seqs_def merged_row_def)

lemma gap_free_merged:
  assumes "A \<noteq> B" and "gap_free rows A m" and "gap_free rows B n"
  shows "gap_free (map (merged_row A B (int m) ids) rows) B (m + n)"
proof -
  have "(\<lambda>q. q + int m) ` {1 .. int n} = {1 + int m .. int n + int m}"
    by (rule image_add_atLeastAtMost')
  then have "{1 .. int m} \<union> (\<lambda>q. q + int m) ` {1 .. int n} = {1 .. int (m + n)}"
    by auto
  with assms show ?thesis
    by (simp add: gap_free_def session_seqs_merged)
qed

lemma moved_rows_keep_seq:
  assumes "A \<noteq> B"
  shows "map (\<lambda>r. (row_id r, session_id r, seq r))
           (map (merged_row A B k ids) (filter (\<lambda>r. session_id r = A) rows))
       = map (\<lambda>r. (row_id r, B, seq r)) (filter (\<lambda>r. session_id r = A) rows)"
  by (induction rows) (simp_all add: merged_row_def)

lemma target_rows_shifted:
  assumes "A \<noteq> B"
  shows "map (\<lambda>r. (row_id r, session_id r, seq r))
           (map (merged_row A B k ids) (filter (\<lambda>r. session_id r = B) rows))
       = map (\<lambda>r. (row_id r, B, seq r + k)) (filter (\<lambda>r. session_id r = B) rows)"
  using assms by (induction rows) (simp_all add: merged_row_def)


lemma mergeSessionMessages_ok:
  assumes ne: "A \<noteq> B" and snap: "snapshot db = None"
    and uniq: "unique_local_ids (messages db)"
    and fk: "B \<in> set (sessions db)"
    and ga: "gap_free (messages db) A m" and gb: "gap_free (messages db) B n"
  shows "mergeSessionMessages None A B db =
     (Inr \<lparr>moved = m, oldMaxSeq = int m, newMaxSeq = int n\<rparr>,
      db\<lparr>messages := map (merged_row A B (int m) (session_local_ids (messages db) B))
                        (messages db)\<rparr>)"
proof -
  have ma: "getMaxSeq db A = int m" and mb: "getMaxSeq db B = int n"
    using ga gb by (simp_all add: getMaxSeq_gap_free)
  have len: "length (filter (\<lambda>r. session_id r = A) (messages db)) = m"
    using ga by (simp add: gap_free_def session_seqs_def)
  have sh: "map (\<lambda>r. if session_id r = B then r\<lparr>seq := seq r + int m\<rparr> else r) (messages db)
      = messages db" if "\<not> (int n > 0 \<and> int m > 0)"
  proof (cases "n = 0")
    case True
    with gb have "filter (\<lambda>r. session_id r = B) (messages db) = []"
      by (simp add: gap_free_no_rows)
    then show ?thesis by (rule shift_no_rows)
  next
    case False
    with that have "int m = 0" by simp
    show ?thesis unfolding \<open>int m = 0\<close> by (rule shift_zero)
  qed
  have "merge_transaction None A B (int m) (int n) db =
     (Inr \<lparr>moved = length (filter (\<lambda>r. session_id r = A) (messages db)),
           oldMaxSeq = int m, newMaxSeq = int n\<rparr>,
      db\<lparr>messages := map (merged_row A B (int m) (session_local_ids (messages db) B))
                        (messages db)\<rparr>)"
    using fk sh by (intro merge_transaction_ok [OF ne snap uniq]) simp_all
  with ne show ?thesis
    by (simp add: mergeSessionMessages_def ma mb len)
qed

text \<open>
  C1 (amended). For distinct sessions \<open>A\<close> and \<open>B\<close> whose messages have the gap-free
  \<^verbatim>\<open>seq\<close> values \<open>1..m\<close> and \<open>1..n\<close>, in a store that satisfies its unique index, has no
  transaction open and holds session \<open>B\<close>, \<^verbatim>\<open>mergeSessionMessages(A, B)\<close> succeeds and
  renumbers the target: the messages of \<open>A\<close> move to \<open>B\<close> and keep their \<^verbatim>\<open>seq\<close> \<open>1..m\<close>; the
  original messages of \<open>B\<close> are raised by \<open>m\<close> to \<open>m+1..m+n\<close>; a local id of \<open>A\<close> that \<open>B\<close>
  uses is set to null; so session \<open>B\<close> ends gap-free with \<open>1..m+n\<close>. Whatever statement
  fails, the store is left as it was.
\<close>

theorem mergeSessionMessages_renumbers_target:
  assumes "A \<noteq> B" and "snapshot db = None" and "unique_local_ids (messages db)"
    and "B \<in> set (sessions db)"
    and "gap_free (messages db) A m" and "gap_free (messages db) B n"
  shows "mergeSessionMessages None A B db =
           (Inr \<lparr>moved = m, oldMaxSeq = int m, newMaxSeq = int n\<rparr>,
            db\<lparr>messages := map (merged_row A B (int m) (session_local_ids (messages db) B))
                              (messages db)\<rparr>)
       \<and> map (\<lambda>r. (row_id r, session_id r, seq r))
             (map (merged_row A B (int m) (session_local_ids (messages db) B))
                (filter (\<lambda>r. session_id r = A) (messages db)))
           = map (\<lambda>r. (row_id r, B, seq r)) (filter (\<lambda>r. session_id r = A) (messages db))
       \<and> map (\<lambda>r. (row_id r, session_id r, seq r))
             (map (merged_row A B (int m) (session_local_ids (messages db) B))
                (filter (\<lambda>r. session_id r = B) (messages db)))
           = map (\<lambda>r. (row_id r, B, seq r + int m)) (filter (\<lambda>r. session_id r = B) (messages db))
       \<and> gap_free (map (merged_row A B (int m) (session_local_ids (messages db) B))
                     (messages db)) B (m + n)
       \<and> (\<forall>fault e db'. mergeSessionMessages fault A B db = (Inl e, db') \<longrightarrow> db' = db)"
proof (intro conjI allI impI)
  show "map (\<lambda>r. (row_id r, session_id r, seq r))
             (map (merged_row A B (int m) (session_local_ids (messages db) B))
                (filter (\<lambda>r. session_id r = A) (messages db)))
           = map (\<lambda>r. (row_id r, B, seq r)) (filter (\<lambda>r. session_id r = A) (messages db))"
    using assms(1) by (rule moved_rows_keep_seq)
  show "map (\<lambda>r. (row_id r, session_id r, seq r))
             (map (merged_row A B (int m) (session_local_ids (messages db) B))
                (filter (\<lambda>r. session_id r = B) (messages db)))
           = map (\<lambda>r. (row_id r, B, seq r + int m)) (filter (\<lambda>r. session_id r = B) (messages db))"
    using assms(1) by (rule target_rows_shifted)
  show "mergeSessionMessages None A B db =
           (Inr \<lparr>moved = m, oldMaxSeq = int m, newMaxSeq = int n\<rparr>,
            db\<lparr>messages := map (merged_row A B (int m) (session_local_ids (messages db) B))
                              (messages db)\<rparr>)"
    using assms by (rule mergeSessionMessages_ok)
  show "gap_free (map (merged_row A B (int m) (session_local_ids (messages db) B))
                     (messages db)) B (m + n)"
    using assms(1,5,6) by (rule gap_free_merged)
  show "db' = db" if "mergeSessionMessages fault A B db = (Inl e, db')" for fault e db'
    using assms(2) that by (rule merge_all_or_nothing)
qed

lemma merge_example_facts:
  "snapshot merge_example = None"
  "unique_local_ids (messages merge_example)"
  "''B'' \<in> set (sessions merge_example)"
  "gap_free (messages merge_example) ''A'' 1"
  "gap_free (messages merge_example) ''B'' 2"
  by (auto simp: merge_example_def unique_local_ids_def local_id_key_def gap_free_def
      session_seqs_def)

lemma merge_example_result:
  "map (merged_row ''A'' ''B'' 1 (session_local_ids (messages merge_example) ''B''))
     (messages merge_example) =
   [\<lparr>row_id = ''a1'', session_id = ''B'', content = ''{}'', created_at = 10, seq = 1,
     local_id = None\<rparr>,
    \<lparr>row_id = ''b1'', session_id = ''B'', content = ''{}'', created_at = 20, seq = 2,
     local_id = Some ''l1''\<rparr>,
    \<lparr>row_id = ''b2'', session_id = ''B'', content = ''{}'', created_at = 30, seq = 3,
     local_id = None\<rparr>]"
  by (simp add: merge_example_def merged_row_def session_local_ids_def)

theorem mergeSessionMessages_renumbers_target_witness:
  "''A'' \<noteq> ''B'' \<and> snapshot merge_example = None
   \<and> unique_local_ids (messages merge_example)
   \<and> ''B'' \<in> set (sessions merge_example)
   \<and> gap_free (messages merge_example) ''A'' 1 \<and> gap_free (messages merge_example) ''B'' 2
   \<and> mergeSessionMessages None ''A'' ''B'' merge_example =
       (Inr \<lparr>moved = 1, oldMaxSeq = 1, newMaxSeq = 2\<rparr>,
        merge_example\<lparr>messages :=
          [\<lparr>row_id = ''a1'', session_id = ''B'', content = ''{}'', created_at = 10, seq = 1,
            local_id = None\<rparr>,
           \<lparr>row_id = ''b1'', session_id = ''B'', content = ''{}'', created_at = 20, seq = 2,
            local_id = Some ''l1''\<rparr>,
           \<lparr>row_id = ''b2'', session_id = ''B'', content = ''{}'', created_at = 30, seq = 3,
            local_id = None\<rparr>]\<rparr>)
   \<and> mergeSessionMessages (Some AtReassign) ''A'' ''B'' merge_example
       = (Inl StatementFailed, merge_example)"
proof -
  have ne: "''A'' \<noteq> ''B''" by simp
  note t = mergeSessionMessages_renumbers_target [OF ne merge_example_facts]
  from t have ok: "mergeSessionMessages None ''A'' ''B'' merge_example =
       (Inr \<lparr>moved = 1, oldMaxSeq = 1, newMaxSeq = 2\<rparr>,
        merge_example\<lparr>messages :=
          [\<lparr>row_id = ''a1'', session_id = ''B'', content = ''{}'', created_at = 10, seq = 1,
            local_id = None\<rparr>,
           \<lparr>row_id = ''b1'', session_id = ''B'', content = ''{}'', created_at = 20, seq = 2,
            local_id = Some ''l1''\<rparr>,
           \<lparr>row_id = ''b2'', session_id = ''B'', content = ''{}'', created_at = 30, seq = 3,
            local_id = None\<rparr>]\<rparr>)"
    by (simp add: merge_example_result)
  obtain r d where f: "mergeSessionMessages (Some AtReassign) ''A'' ''B'' merge_example = (r, d)"
    by (cases "mergeSessionMessages (Some AtReassign) ''A'' ''B'' merge_example")
  have r: "r = Inl StatementFailed"
    using f by (simp add: mergeSessionMessages_def merge_transaction_def db_bind_def
        db_return_def exec_begin_def shift_seq_def select_collisions_def clear_local_ids_def
        reassign_session_def exec_commit_def exec_rollback_def Let_def getMaxSeq_def
        merge_example_def session_local_ids_def split: if_splits)
  with f t have "d = merge_example" by blast
  with f r have fail: "mergeSessionMessages (Some AtReassign) ''A'' ''B'' merge_example
       = (Inl StatementFailed, merge_example)" by simp
  show ?thesis using ne merge_example_facts ok fail by blast
qed

theorem mergeSessionMessages_spec_renumbering_counterexample:
  "gap_free (messages merge_example) ''A'' 1 \<and> gap_free (messages merge_example) ''B'' 2
   \<and> messages (snd (mergeSessionMessages None ''A'' ''B'' merge_example))
      \<noteq> map (spec_merged_row ''A'' ''B'' 2 (session_local_ids (messages merge_example) ''B''))
            (messages merge_example)
   \<and> map (\<lambda>r. (row_id r, seq r)) (messages (snd (mergeSessionMessages None ''A'' ''B'' merge_example)))
      = [(''a1'', 1), (''b1'', 2), (''b2'', 3)]
   \<and> map (\<lambda>r. (row_id r, seq r))
        (map (spec_merged_row ''A'' ''B'' 2 (session_local_ids (messages merge_example) ''B''))
            (messages merge_example))
      = [(''a1'', 3), (''b1'', 1), (''b2'', 2)]"
proof -
  have ne: "''A'' \<noteq> ''B''" by simp
  have ok: "messages (snd (mergeSessionMessages None ''A'' ''B'' merge_example)) =
     map (merged_row ''A'' ''B'' 1 (session_local_ids (messages merge_example) ''B''))
       (messages merge_example)"
    using mergeSessionMessages_ok [OF ne merge_example_facts] by simp
  have spec: "map (\<lambda>r. (row_id r, seq r))
        (map (spec_merged_row ''A'' ''B'' 2 (session_local_ids (messages merge_example) ''B''))
            (messages merge_example))
      = [(''a1'', 3), (''b1'', 1), (''b2'', 2)]"
    by (simp add: merge_example_def spec_merged_row_def)
  have act: "map (\<lambda>r. (row_id r, seq r))
      (messages (snd (mergeSessionMessages None ''A'' ''B'' merge_example)))
      = [(''a1'', 1), (''b1'', 2), (''b2'', 3)]"
    unfolding ok merge_example_result by simp
  from spec act have "messages (snd (mergeSessionMessages None ''A'' ''B'' merge_example))
      \<noteq> map (spec_merged_row ''A'' ''B'' 2 (session_local_ids (messages merge_example) ''B''))
            (messages merge_example)"
    by auto
  with merge_example_facts spec act show ?thesis by blast
qed

text \<open>
  C10. Merging a session into itself is a no-op: it returns
  \<^verbatim>\<open>{moved: 0, oldMaxSeq: 0, newMaxSeq: 0}\<close> and leaves the store as it is, whatever the
  store holds.
\<close>

theorem mergeSessionMessages_self:
  "mergeSessionMessages fault x x db = (Inr \<lparr>moved = 0, oldMaxSeq = 0, newMaxSeq = 0\<rparr>, db)"
  by (simp add: mergeSessionMessages_def)

theorem mergeSessionMessages_self_witness:
  "mergeSessionMessages None ''A'' ''A'' merge_example
     = (Inr \<lparr>moved = 0, oldMaxSeq = 0, newMaxSeq = 0\<rparr>, merge_example)
   \<and> mergeSessionMessages (Some AtBegin) ''B'' ''B'' merge_example
     = (Inr \<lparr>moved = 0, oldMaxSeq = 0, newMaxSeq = 0\<rparr>, merge_example)"
  using mergeSessionMessages_self [of None "''A''" merge_example]
    mergeSessionMessages_self [of "Some AtBegin" "''B''" merge_example]
  by simp

section \<open>Properties of opening the store\<close>

























section \<open>Properties of the notification hub\<close>

lemma getSession_sid: "getSession engine x = Some s \<Longrightarrow> sid s = x"
  unfolding getSession_def by (induction engine) (auto split: if_splits)

lemma await_each_calls: "map snd (await_each settle t cs) = cs"
  by (induction cs arbitrary: t) simp_all

lemma await_each_member:
  assumes "tc \<in> set (await_each settle t cs)"
  shows "snd tc \<in> set cs"
proof -
  from assms have "snd tc \<in> set (map snd (await_each settle t cs))" by (simp only: set_map image_eqI)
  then show ?thesis by (simp only: await_each_calls)
qed

lemma await_each_not_before:
  assumes "tc \<in> set (await_each settle t cs)"
  shows "t \<le> fst tc"
  using assms
proof (induction cs arbitrary: t)
  case Nil
  then show ?case by simp
next
  case (Cons c cs)
  from Cons.prems have "tc = (t, c) \<or> tc \<in> set (await_each settle (t + int (settle t c)) cs)"
    by simp
  then show ?case
  proof
    assume "tc = (t, c)"
    then show ?thesis by simp
  next
    assume "tc \<in> set (await_each settle (t + int (settle t c)) cs)"
    from Cons.IH [OF this] show ?thesis by simp
  qed
qed

lemma await_each_first:
  assumes "cs \<noteq> []"
  shows "hd (await_each settle t cs) = (t, hd cs)"
  using assms by (cases cs) simp_all

lemma await_each_Nil_iff: "await_each settle t cs = [] \<longleftrightarrow> cs = []"
  by (cases cs) simp_all


lemma map_of_reset:
  "map_of (AList.delete k al @ [(k, v)]) k' = (if k' = k then Some v else map_of al k')"
  by (simp add: map_add_def delete_conv' split: option.splits)


lemma handle_session_change:
  assumes "event_sessionId ev = Some s"
    and "field (JObj ev) ''type'' = JStr ''session-updated''
         \<or> field (JObj ev) ''type'' = JStr ''session-added''"
    and "getSession engine s = Some sess" and "active sess"
  shows "handleSyncEvent settle engine now ev h = (checkForPermissionNotification now sess h, [])"
  using assms by (auto simp: handleSyncEvent_def)

lemma check_requests_present:
  assumes "session_requests sess = Some reqs"
  shows "map_of (lastKnownRequests (checkForPermissionNotification now sess h)) (sid sess)
       = Some (set (map fst reqs))"
  using assms by (simp add: checkForPermissionNotification_def Let_def update_conv')

lemma check_requests_absent:
  assumes "session_requests sess = None"
  shows "checkForPermissionNotification now sess h = h"
  using assms by (simp add: checkForPermissionNotification_def)

text \<open>
  C4 (amended). For a session-added or session-updated event on an active session, the
  permission-change detection replaces the recorded set of known request ids of the
  session with the keys of \<^verbatim>\<open>agentState.requests\<close> whenever that field is present, also
  when no key is new and when there is no key at all. When \<^verbatim>\<open>agentState\<close> is null or its
  \<^verbatim>\<open>requests\<close> are absent, the hub is left as it is, recorded set included.
\<close>

theorem permission_detection_records_current_ids:
  assumes "event_sessionId ev = Some s"
    and "field (JObj ev) ''type'' = JStr ''session-updated''
         \<or> field (JObj ev) ''type'' = JStr ''session-added''"
    and "getSession engine s = Some sess" and "active sess"
  shows "(session_requests sess = Some reqs \<longrightarrow>
            map_of (lastKnownRequests (fst (handleSyncEvent settle engine now ev h))) s
              = Some (set (map fst reqs)))
       \<and> (session_requests sess = None \<longrightarrow> fst (handleSyncEvent settle engine now ev h) = h)"
  using assms getSession_sid [OF assms(3)]
  by (auto simp: handle_session_change check_requests_present check_requests_absent)


lemmas hub_eval =
  handleSyncEvent_def event_sessionId_def field_def getSession_def session_updated_def
  session_removed_def test_session_def idle_session_def stale_hub_def
  checkForPermissionNotification_def session_requests_def clearSessionState_def
  timer_delay_def

theorem permission_detection_records_current_ids_witness:
  "event_sessionId session_updated = Some ''session-1''
   \<and> field (JObj session_updated) ''type'' = JStr ''session-updated''
   \<and> getSession [test_session (Some [])] ''session-1'' = Some (test_session (Some []))
   \<and> active (test_session (Some []))
   \<and> session_requests (test_session (Some [])) = Some []
   \<and> map_of (lastKnownRequests stale_hub) ''session-1'' = Some {''req1''}
   \<and> map_of (lastKnownRequests
         (fst (handleSyncEvent instant [test_session (Some [])] 1000 session_updated stale_hub)))
         ''session-1'' = Some {}
   \<and> session_requests idle_session = None
   \<and> fst (handleSyncEvent instant [idle_session] 1000 session_updated stale_hub) = stale_hub"
proof -
  have e: "event_sessionId session_updated = Some ''session-1''"
    and t: "field (JObj session_updated) ''type'' = JStr ''session-updated''"
    by (simp_all add: hub_eval)
  have g: "getSession [test_session (Some [])] ''session-1'' = Some (test_session (Some []))"
    and a: "active (test_session (Some []))"
    and r: "session_requests (test_session (Some [])) = Some []"
    by (simp_all add: hub_eval)
  have g': "getSession [idle_session] ''session-1'' = Some idle_session"
    and a': "active idle_session"
    and r': "session_requests idle_session = None"
    by (simp_all add: hub_eval)
  have old: "map_of (lastKnownRequests stale_hub) ''session-1'' = Some {''req1''}"
    by (simp add: stale_hub_def)
  from permission_detection_records_current_ids [OF e disjI1 [OF t] g a,
      of "[]" instant 1000 stale_hub] r
  have w1: "map_of (lastKnownRequests
         (fst (handleSyncEvent instant [test_session (Some [])] 1000 session_updated stale_hub)))
         ''session-1'' = Some {}"
    by simp
  from permission_detection_records_current_ids [OF e disjI1 [OF t] g' a',
      of _ instant 1000 stale_hub] r'
  have w2: "fst (handleSyncEvent instant [idle_session] 1000 session_updated stale_hub) = stale_hub"
    by simp
  show ?thesis using e t g a r old w1 r' w2 by blast
qed

theorem permission_detection_absent_requests_counterexample:
  "active idle_session
   \<and> getSession [idle_session] ''session-1'' = Some idle_session
   \<and> current_request_ids idle_session = {}
   \<and> map_of (lastKnownRequests
         (fst (handleSyncEvent instant [idle_session] 1000 session_updated stale_hub))) ''session-1''
       = Some {''req1''}
   \<and> map_of (lastKnownRequests
         (fst (handleSyncEvent instant [idle_session] 1000 session_updated stale_hub))) ''session-1''
       \<noteq> Some (current_request_ids idle_session)
   \<and> map_of (lastKnownRequests
         (fst (handleSyncEvent instant [test_session None] 1000 session_updated stale_hub))) ''session-1''
       \<noteq> Some (current_request_ids (test_session None))"
  by (simp add: hub_eval current_request_ids_def)

lemma handle_ready:
  assumes "event_sessionId ev = Some s"
    and "field (JObj ev) ''type'' = JStr ''message-received''"
    and "extractMessageEventType_fallback ev = Inr (Some ''ready'')"
  shows "handleSyncEvent settle engine now ev h = sendReadyNotification settle engine now s h"
  using assms by (simp add: handleSyncEvent_def)

lemma getNotifiableSession_active:
  assumes "getSession engine s = Some sess" and "active sess"
  shows "getNotifiableSession engine s = Some sess"
  using assms by (simp add: getNotifiableSession_def)

lemma fireDue_no_timers:
  assumes "notificationDebounce h = []"
  shows "fireDue settle engine t h = (h, [])"
  using assms by (simp add: fireDue_def)

lemma ready_event_facts:
  "event_sessionId wrapped_ready_event = Some ''session-1''"
  "field (JObj wrapped_ready_event) ''type'' = JStr ''message-received''"
  "extractMessageEventType_fallback wrapped_ready_event = Inr (Some ''ready'')"
  "getNotifiableSession [idle_session] ''session-1'' = Some idle_session"
     apply (simp add: event_sessionId_def field_def wrapped_ready_event_def)
    apply (simp add: field_def wrapped_ready_event_def)
   apply (simp add: extractMessageEventType_fallback_eq event_parsing_eval envelope_data_type_def)
  apply (simp add: getNotifiableSession_def getSession_def idle_session_def)
  done

lemma ready_scenario:
  assumes "20 \<le> T"
  shows "snd (run settle [idle_session]
                   [(T, [idle_session], wrapped_ready_event),
                    (T + 5, [idle_session], wrapped_ready_event),
                    (T + 25, [idle_session], wrapped_ready_event)] (T + 30) (test_hub 1 20))
              = [(T, SendReady 0 idle_session), (T + 25, SendReady 0 idle_session)]"
proof -
  let ?h0 = "test_hub 1 20"
  let ?h1 = "?h0\<lparr>lastReadyNotificationAt := [(''session-1'', T)]\<rparr>"
  let ?h3 = "?h0\<lparr>lastReadyNotificationAt := [(''session-1'', T + 25)]\<rparr>"
  note hr = handle_ready [OF ready_event_facts(1-3)]
  have s1: "handleSyncEvent settle [idle_session] T wrapped_ready_event ?h0
      = (?h1, [(T, SendReady 0 idle_session)])"
    using assms
    by (simp add: hr ready_event_facts(4) sendReadyNotification_def Let_def notifyReady_def
        test_hub_def newNotificationHub_def)
  have s2: "handleSyncEvent settle [idle_session] (T + 5) wrapped_ready_event ?h1 = (?h1, [])"
    by (simp add: hr ready_event_facts(4) sendReadyNotification_def Let_def notifyReady_def
        test_hub_def newNotificationHub_def)
  have s3: "handleSyncEvent settle [idle_session] (T + 25) wrapped_ready_event ?h1
      = (?h3, [(T + 25, SendReady 0 idle_session)])"
    by (simp add: hr ready_event_facts(4) sendReadyNotification_def Let_def notifyReady_def
        test_hub_def newNotificationHub_def)
  have f0: "fireDue settle [idle_session] t ?h0 = (?h0, [])"
    and f1: "fireDue settle [idle_session] t ?h1 = (?h1, [])"
    and f3: "fireDue settle [idle_session] t ?h3 = (?h3, [])" for t
    by (simp_all add: fireDue_no_timers test_hub_def newNotificationHub_def)
  show ?thesis
    by (simp only: run.simps Let_def f0 f1 f3 s1 s2 s3 prod.case snd_conv append.simps)
qed

text \<open>
  C3. A message-received event whose parsed event type is \<^verbatim>\<open>ready\<close>, on an active
  session, calls \<^verbatim>\<open>sendReady\<close> on every channel exactly once, channel after channel from
  the time of the event on, when at least \<^verbatim>\<open>readyCooldownMs\<close> (5000 ms by default) have
  passed since the session's last ready notification (the epoch when there was none),
  and records the clock reading as the new last-notified time; within the cooldown it
  calls no channel and changes nothing. With a cooldown of 20 ms, ready events at \<open>T\<close>,
  \<open>T + 5\<close> and \<open>T + 25\<close> (for a clock reading \<open>T\<close> of at least 20) give two calls, at \<open>T\<close>
  and at \<open>T + 25\<close>.
\<close>

theorem ready_notification_cooldown:
  assumes "event_sessionId ev = Some s"
    and "field (JObj ev) ''type'' = JStr ''message-received''"
    and "extractMessageEventType_fallback ev = Inr (Some ''ready'')"
    and "getSession engine s = Some sess" and "active sess"
  shows "(readyCooldownMs h \<le> now - (case map_of (lastReadyNotificationAt h) s of
                                          None \<Rightarrow> 0 | Some t \<Rightarrow> t)
            \<longrightarrow> map snd (snd (handleSyncEvent settle engine now ev h))
                  = map (\<lambda>i. SendReady i sess) [0 ..< channels h]
              \<and> snd (handleSyncEvent settle engine now ev h)
                  = await_each settle now (map (\<lambda>i. SendReady i sess) [0 ..< channels h])
              \<and> fst (handleSyncEvent settle engine now ev h)
                  = h\<lparr>lastReadyNotificationAt := AList.update s now (lastReadyNotificationAt h)\<rparr>
              \<and> map_of (lastReadyNotificationAt (fst (handleSyncEvent settle engine now ev h))) s
                  = Some now)
       \<and> (now - (case map_of (lastReadyNotificationAt h) s of None \<Rightarrow> 0 | Some t \<Rightarrow> t)
              < readyCooldownMs h
            \<longrightarrow> handleSyncEvent settle engine now ev h = (h, []))
       \<and> (\<forall>T \<ge> 20.
            snd (run settle [idle_session]
                   [(T, [idle_session], wrapped_ready_event),
                    (T + 5, [idle_session], wrapped_ready_event),
                    (T + 25, [idle_session], wrapped_ready_event)] (T + 30) (test_hub 1 20))
              = [(T, SendReady 0 idle_session), (T + 25, SendReady 0 idle_session)])
       \<and> readyCooldownMs (newNotificationHub n None) = 5000"
proof (intro conjI impI allI)
  note h = handle_ready [OF assms(1-3)] getNotifiableSession_active [OF assms(4,5)]
  assume c: "readyCooldownMs h \<le> now - (case map_of (lastReadyNotificationAt h) s of
                                          None \<Rightarrow> 0 | Some t \<Rightarrow> t)"
  then show calls: "snd (handleSyncEvent settle engine now ev h)
      = await_each settle now (map (\<lambda>i. SendReady i sess) [0 ..< channels h])"
    by (simp add: h sendReadyNotification_def Let_def notifyReady_def)
  show "map snd (snd (handleSyncEvent settle engine now ev h))
      = map (\<lambda>i. SendReady i sess) [0 ..< channels h]"
    unfolding calls by (rule await_each_calls)
  from c show "fst (handleSyncEvent settle engine now ev h)
                  = h\<lparr>lastReadyNotificationAt := AList.update s now (lastReadyNotificationAt h)\<rparr>"
    by (simp add: h sendReadyNotification_def Let_def)
  then show "map_of (lastReadyNotificationAt (fst (handleSyncEvent settle engine now ev h))) s
      = Some now"
    by (simp add: update_conv')
next
  note h = handle_ready [OF assms(1-3)] getNotifiableSession_active [OF assms(4,5)]
  assume "now - (case map_of (lastReadyNotificationAt h) s of None \<Rightarrow> 0 | Some t \<Rightarrow> t)
              < readyCooldownMs h"
  then show "handleSyncEvent settle engine now ev h = (h, [])"
    by (simp add: h sendReadyNotification_def Let_def)
next
  fix T :: int
  assume "20 \<le> T"
  then show "snd (run settle [idle_session]
                   [(T, [idle_session], wrapped_ready_event),
                    (T + 5, [idle_session], wrapped_ready_event),
                    (T + 25, [idle_session], wrapped_ready_event)] (T + 30) (test_hub 1 20))
              = [(T, SendReady 0 idle_session), (T + 25, SendReady 0 idle_session)]"
    by (rule ready_scenario)
next
  show "readyCooldownMs (newNotificationHub n None) = 5000"
    by (simp add: newNotificationHub_def)
qed

theorem ready_notification_cooldown_witness:
  "event_sessionId wrapped_ready_event = Some ''session-1''
   \<and> field (JObj wrapped_ready_event) ''type'' = JStr ''message-received''
   \<and> extractMessageEventType_fallback wrapped_ready_event = Inr (Some ''ready'')
   \<and> getSession [idle_session] ''session-1'' = Some idle_session \<and> active idle_session
   \<and> map_of (lastReadyNotificationAt stale_hub) ''session-1'' = Some 900
   \<and> readyCooldownMs stale_hub = 5000
   \<and> snd (handleSyncEvent slow_first_channel [idle_session] 6000 wrapped_ready_event stale_hub)
       = [(6000, SendReady 0 idle_session)]
   \<and> map_of (lastReadyNotificationAt
         (fst (handleSyncEvent slow_first_channel [idle_session] 6000 wrapped_ready_event
                 stale_hub))) ''session-1''
       = Some 6000
   \<and> handleSyncEvent slow_first_channel [idle_session] 1000 wrapped_ready_event stale_hub
       = (stale_hub, [])
   \<and> snd (run slow_first_channel [idle_session]
             [(1000, [idle_session], wrapped_ready_event),
              (1005, [idle_session], wrapped_ready_event),
              (1025, [idle_session], wrapped_ready_event)] 1030 (test_hub 1 20))
       = [(1000, SendReady 0 idle_session), (1025, SendReady 0 idle_session)]"
proof -
  have g: "getSession [idle_session] ''session-1'' = Some idle_session"
    and a: "active idle_session"
    by (simp_all add: getSession_def idle_session_def)
  have l: "map_of (lastReadyNotificationAt stale_hub) ''session-1'' = Some 900"
    and c: "readyCooldownMs stale_hub = 5000" and n: "channels stale_hub = 1"
    by (simp_all add: stale_hub_def)
  note t = ready_notification_cooldown [OF ready_event_facts(1-3) g a]
  from t [of stale_hub 6000 slow_first_channel, THEN conjunct1] l c n
  have w1: "snd (handleSyncEvent slow_first_channel [idle_session] 6000 wrapped_ready_event
                   stale_hub)
       = [(6000, SendReady 0 idle_session)]"
    and w2: "map_of (lastReadyNotificationAt
         (fst (handleSyncEvent slow_first_channel [idle_session] 6000 wrapped_ready_event
                 stale_hub))) ''session-1''
       = Some 6000"
    by (simp_all add: update_conv')
  from t [of stale_hub 1000 slow_first_channel, THEN conjunct2, THEN conjunct1] l c
  have w3: "handleSyncEvent slow_first_channel [idle_session] 1000 wrapped_ready_event stale_hub
       = (stale_hub, [])"
    by simp
  from t [of stale_hub 0 slow_first_channel, THEN conjunct2, THEN conjunct2, THEN conjunct1,
      rule_format, of 1000]
  have w4': "snd (run slow_first_channel [idle_session]
             [(1000, [idle_session], wrapped_ready_event),
              (1005, [idle_session], wrapped_ready_event),
              (1025, [idle_session], wrapped_ready_event)] 1030 (test_hub 1 20))
       = [(1000, SendReady 0 idle_session), (1025, SendReady 0 idle_session)]"
    by (simp del: run.simps)
  show ?thesis using ready_event_facts(1-3) g a l c w1 w2 w3 w4' by blast
qed

lemma getNotifiableSession_sid:
  assumes "getNotifiableSession engine s = Some sess"
  shows "sid sess = s" and "getSession engine s = Some sess" and "active sess"
  using assms getSession_sid [of engine s]
  by (auto simp: getNotifiableSession_def split: option.splits if_splits)

lemma notify_loop_session:
  assumes "tc \<in> set (await_each settle t (map f [0 ..< n]))"
    and "\<And>i. call_session (f i) = sess"
  shows "call_session (snd tc) = sess"
  using await_each_member [OF assms(1)] assms(2) by auto

lemma sendPermissionNotification_cases:
  "sendPermissionNotification settle engine t s h = []
   \<or> (\<exists>sess. getNotifiableSession engine s = Some sess
          \<and> sendPermissionNotification settle engine t s h
              = await_each settle t (map (\<lambda>i. SendPermissionRequest i sess) [0 ..< channels h]))"
  by (cases "getNotifiableSession engine s")
     (simp_all add: sendPermissionNotification_def notifyPermission_def)

lemma sendPermissionNotification_calls:
  assumes "tc \<in> set (sendPermissionNotification settle engine t s h)"
  shows "getNotifiableSession engine s = Some (call_session (snd tc))" and "t \<le> fst tc"
proof -
  from assms sendPermissionNotification_cases [of settle engine t s h]
  obtain sess where g: "getNotifiableSession engine s = Some sess"
    and e: "sendPermissionNotification settle engine t s h
              = await_each settle t (map (\<lambda>i. SendPermissionRequest i sess) [0 ..< channels h])"
    by auto
  from assms have m: "tc \<in> set (await_each settle t
      (map (\<lambda>i. SendPermissionRequest i sess) [0 ..< channels h]))"
    by (simp only: e)
  from notify_loop_session [OF m] g
  show "getNotifiableSession engine s = Some (call_session (snd tc))" by simp
  from m show "t \<le> fst tc" by (rule await_each_not_before)
qed

lemma sendPermissionNotification_first:
  assumes "sendPermissionNotification settle engine t s h \<noteq> []"
  shows "fst (hd (sendPermissionNotification settle engine t s h)) = t"
proof -
  from assms sendPermissionNotification_cases [of settle engine t s h]
  obtain sess where
    e: "sendPermissionNotification settle engine t s h
              = await_each settle t (map (\<lambda>i. SendPermissionRequest i sess) [0 ..< channels h])"
    by auto
  with assms have "map (\<lambda>i. SendPermissionRequest i sess) [0 ..< channels h] \<noteq> []"
    by (simp only: await_each_Nil_iff not_False_eq_True)
  from await_each_first [OF this] show ?thesis by (simp add: e)
qed

lemma sendReadyNotification_cases:
  "snd (sendReadyNotification settle engine now s h) = []
   \<or> (\<exists>sess. getNotifiableSession engine s = Some sess
          \<and> snd (sendReadyNotification settle engine now s h)
              = await_each settle now (map (\<lambda>i. SendReady i sess) [0 ..< channels h]))"
  by (cases "getNotifiableSession engine s")
     (simp_all add: sendReadyNotification_def notifyReady_def Let_def)

lemma sendReadyNotification_calls:
  assumes "tc \<in> set (snd (sendReadyNotification settle engine now s h))"
  shows "getNotifiableSession engine s = Some (call_session (snd tc))" and "now \<le> fst tc"
proof -
  from assms sendReadyNotification_cases [of settle engine now s h]
  obtain sess where g: "getNotifiableSession engine s = Some sess"
    and e: "snd (sendReadyNotification settle engine now s h)
              = await_each settle now (map (\<lambda>i. SendReady i sess) [0 ..< channels h])"
    by auto
  from assms have m: "tc \<in> set (await_each settle now
      (map (\<lambda>i. SendReady i sess) [0 ..< channels h]))"
    by (simp only: e)
  from notify_loop_session [OF m] g
  show "getNotifiableSession engine s = Some (call_session (snd tc))" by simp
  from m show "now \<le> fst tc" by (rule await_each_not_before)
qed

lemma sendReadyNotification_first:
  assumes "snd (sendReadyNotification settle engine now s h) \<noteq> []"
  shows "fst (hd (snd (sendReadyNotification settle engine now s h))) = now"
proof -
  from assms sendReadyNotification_cases [of settle engine now s h]
  obtain sess where
    e: "snd (sendReadyNotification settle engine now s h)
              = await_each settle now (map (\<lambda>i. SendReady i sess) [0 ..< channels h])"
    by auto
  with assms have "map (\<lambda>i. SendReady i sess) [0 ..< channels h] \<noteq> []"
    by (simp only: await_each_Nil_iff not_False_eq_True)
  from await_each_first [OF this] show ?thesis by (simp add: e)
qed

lemma handleSyncEvent_ready_or_quiet:
  "snd (handleSyncEvent settle engine now ev h) = []
   \<or> (\<exists>s. event_sessionId ev = Some s
          \<and> handleSyncEvent settle engine now ev h = sendReadyNotification settle engine now s h)"
  by (auto simp: handleSyncEvent_def split: option.splits if_splits sum.splits)

lemma handleSyncEvent_calls:
  assumes "tc \<in> set (snd (handleSyncEvent settle engine now ev h))"
  shows "getNotifiableSession engine (sid (call_session (snd tc))) = Some (call_session (snd tc))"
    and "now \<le> fst tc"
proof -
  from assms handleSyncEvent_ready_or_quiet [of settle engine now ev h]
  obtain s where m: "tc \<in> set (snd (sendReadyNotification settle engine now s h))"
    by auto
  from sendReadyNotification_calls(1) [OF m]
  have g: "getNotifiableSession engine s = Some (call_session (snd tc))" .
  with getNotifiableSession_sid(1) [OF g]
  show "getNotifiableSession engine (sid (call_session (snd tc))) = Some (call_session (snd tc))"
    by simp
  from m show "now \<le> fst tc" by (rule sendReadyNotification_calls(2))
qed

lemma handleSyncEvent_first:
  assumes "snd (handleSyncEvent settle engine now ev h) \<noteq> []"
  shows "fst (hd (snd (handleSyncEvent settle engine now ev h))) = now"
proof -
  from assms handleSyncEvent_ready_or_quiet [of settle engine now ev h]
  obtain s where e: "handleSyncEvent settle engine now ev h
      = sendReadyNotification settle engine now s h"
    by auto
  with assms show ?thesis by (simp add: sendReadyNotification_first)
qed

lemma fireTimer_calls:
  assumes "tc \<in> set (snd (fireTimer settle engine now k h))"
  shows "getNotifiableSession engine k = Some (call_session (snd tc))" and "now \<le> fst tc"
proof -
  from assms have m: "tc \<in> set (sendPermissionNotification settle engine now k
      (h\<lparr>notificationDebounce := AList.delete k (notificationDebounce h)\<rparr>))"
    by (simp add: fireTimer_def Let_def)
  from m show "getNotifiableSession engine k = Some (call_session (snd tc))"
    by (rule sendPermissionNotification_calls(1))
  from m show "now \<le> fst tc" by (rule sendPermissionNotification_calls(2))
qed

lemma fireTimer_first:
  assumes "snd (fireTimer settle engine now k h) \<noteq> []"
  shows "fst (hd (snd (fireTimer settle engine now k h))) = now"
  using assms by (simp add: fireTimer_def Let_def sendPermissionNotification_first)

lemma single_call:
  assumes "length xs \<le> 1" and "x \<in> set xs"
  shows "x = hd xs"
  using assms by (cases xs) auto

lemma await_each_length: "length (await_each settle t cs) = length cs"
  by (induction cs arbitrary: t) simp_all

lemma handleSyncEvent_length:
  "length (snd (handleSyncEvent settle engine now ev h)) \<le> channels h"
proof -
  from handleSyncEvent_ready_or_quiet [of settle engine now ev h]
  show ?thesis
  proof
    assume "snd (handleSyncEvent settle engine now ev h) = []"
    then show ?thesis by simp
  next
    assume "\<exists>s. event_sessionId ev = Some s
        \<and> handleSyncEvent settle engine now ev h = sendReadyNotification settle engine now s h"
    then obtain s where e: "handleSyncEvent settle engine now ev h
        = sendReadyNotification settle engine now s h"
      by blast
    from sendReadyNotification_cases [of settle engine now s h]
    show ?thesis by (auto simp: e await_each_length)
  qed
qed

lemma fireTimer_length:
  "length (snd (fireTimer settle engine now k h)) \<le> channels h"
proof -
  let ?h1 = "h\<lparr>notificationDebounce := AList.delete k (notificationDebounce h)\<rparr>"
  from sendPermissionNotification_cases [of settle engine now k ?h1]
  show ?thesis by (auto simp: fireTimer_def Let_def await_each_length)
qed

lemma handleSyncEvent_single_channel:
  assumes "channels h \<le> 1" and "tc \<in> set (snd (handleSyncEvent settle engine now ev h))"
  shows "fst tc = now"
proof -
  from assms(1) handleSyncEvent_length [of settle engine now ev h]
  have "length (snd (handleSyncEvent settle engine now ev h)) \<le> 1" by simp
  from single_call [OF this assms(2)]
  have "tc = hd (snd (handleSyncEvent settle engine now ev h))" .
  moreover from assms(2) have "snd (handleSyncEvent settle engine now ev h) \<noteq> []" by auto
  ultimately show ?thesis by (simp add: handleSyncEvent_first)
qed

lemma fireTimer_single_channel:
  assumes "channels h \<le> 1" and "tc \<in> set (snd (fireTimer settle engine now k h))"
  shows "fst tc = now"
proof -
  from assms(1) fireTimer_length [of settle engine now k h]
  have "length (snd (fireTimer settle engine now k h)) \<le> 1" by simp
  from single_call [OF this assms(2)]
  have "tc = hd (snd (fireTimer settle engine now k h))" .
  moreover from assms(2) have "snd (fireTimer settle engine now k h) \<noteq> []" by auto
  ultimately show ?thesis by (simp add: fireTimer_first)
qed

lemma sendPermissionNotification_channels:
  assumes "channels h1 = channels h"
  shows "sendPermissionNotification settle engine t s h1
       = sendPermissionNotification settle engine t s h"
  using assms
  by (cases "getNotifiableSession engine s")
     (simp_all add: sendPermissionNotification_def notifyPermission_def)

lemma fireStep_eq:
  "fireStep settle engine timer (h, out) =
      (h\<lparr>notificationDebounce := AList.delete (fst timer) (notificationDebounce h)\<rparr>,
       out @ sendPermissionNotification settle engine (snd timer) (fst timer) h)"
  unfolding fireStep_def fireTimer_def Let_def fst_conv snd_conv
  by (subst sendPermissionNotification_channels [of _ h]) simp_all

lemma fold_fireStep:
  "fold (fireStep settle engine) L (h, out) =
     (h\<lparr>notificationDebounce :=
          fold (\<lambda>timer. AList.delete (fst timer)) L (notificationDebounce h)\<rparr>,
      out @ concat (map (\<lambda>timer. sendPermissionNotification settle engine (snd timer)
                                   (fst timer) h) L))"
proof (induction L arbitrary: h out)
  case Nil
  show ?case by simp
next
  case (Cons timer L)
  let ?h1 = "h\<lparr>notificationDebounce := AList.delete (fst timer) (notificationDebounce h)\<rparr>"
  have same: "sendPermissionNotification settle engine d k ?h1
      = sendPermissionNotification settle engine d k h" for d k
    by (rule sendPermissionNotification_channels) simp
  have "fold (fireStep settle engine) (timer # L) (h, out) =
      fold (fireStep settle engine) L
        (?h1, out @ sendPermissionNotification settle engine (snd timer) (fst timer) h)"
    by (simp only: fold_simps fireStep_eq)
  also have "\<dots> =
     (?h1\<lparr>notificationDebounce :=
          fold (\<lambda>timer. AList.delete (fst timer)) L (notificationDebounce ?h1)\<rparr>,
      (out @ sendPermissionNotification settle engine (snd timer) (fst timer) h)
        @ concat (map (\<lambda>timer. sendPermissionNotification settle engine (snd timer)
                                   (fst timer) ?h1) L))"
    by (rule Cons.IH)
  also have "\<dots> =
     (h\<lparr>notificationDebounce :=
          fold (\<lambda>timer. AList.delete (fst timer)) (timer # L) (notificationDebounce h)\<rparr>,
      out @ concat (map (\<lambda>timer. sendPermissionNotification settle engine (snd timer)
                                   (fst timer) h) (timer # L)))"
    unfolding same by simp
  finally show ?case .
qed

lemma fireDue_eq:
  "fireDue settle engine t h =
     (h\<lparr>notificationDebounce :=
          fold (\<lambda>timer. AList.delete (fst timer))
            (sort_key snd (filter (\<lambda>timer. snd timer \<le> t) (notificationDebounce h)))
            (notificationDebounce h)\<rparr>,
      concat (map (\<lambda>timer. sendPermissionNotification settle engine (snd timer) (fst timer) h)
         (sort_key snd (filter (\<lambda>timer. snd timer \<le> t) (notificationDebounce h)))))"
  by (simp add: fireDue_def fold_fireStep)

lemma fireDue_calls:
  assumes "tc \<in> set (snd (fireDue settle engine t h))"
  shows "getNotifiableSession engine (sid (call_session (snd tc))) = Some (call_session (snd tc))"
proof -
  from assms obtain k d where "tc \<in> set (sendPermissionNotification settle engine d k h)"
    by (auto simp: fireDue_eq)
  then have "getNotifiableSession engine k = Some (call_session (snd tc))"
    by (rule sendPermissionNotification_calls(1))
  with getNotifiableSession_sid(1) [OF this] show ?thesis by simp
qed

lemma run_calls:
  assumes "tc \<in> set (snd (run settle engine timeline stop_time h))"
  shows "\<exists>e \<in> set (engine # map (\<lambda>item. fst (snd item)) timeline).
           getNotifiableSession e (sid (call_session (snd tc))) = Some (call_session (snd tc))"
  using assms
proof (induction timeline arbitrary: engine h)
  case Nil
  then show ?case using fireDue_calls [of tc settle engine stop_time h] by simp
next
  case (Cons item timeline)
  obtain t engine' ev where item: "item = (t, engine', ev)" by (cases item)
  obtain h1 out1 where f: "fireDue settle engine t h = (h1, out1)"
    by (cases "fireDue settle engine t h")
  obtain h2 calls where hd: "handleSyncEvent settle engine' t ev h1 = (h2, calls)"
    by (cases "handleSyncEvent settle engine' t ev h1")
  obtain h3 out3 where r: "run settle engine' timeline stop_time h2 = (h3, out3)"
    by (cases "run settle engine' timeline stop_time h2")
  from Cons.prems have "tc \<in> set out1 \<or> tc \<in> set calls \<or> tc \<in> set out3"
    by (auto simp: item f hd r)
  then show ?case
  proof (elim disjE)
    assume "tc \<in> set out1"
    with f fireDue_calls [of tc settle engine t h] show ?thesis by auto
  next
    assume "tc \<in> set calls"
    then have "tc \<in> set (snd (handleSyncEvent settle engine' t ev h1))" by (simp add: hd)
    from handleSyncEvent_calls(1) [OF this] show ?thesis by (auto simp: item)
  next
    assume "tc \<in> set out3"
    with r Cons.IH [of engine' h2] show ?thesis by (auto simp: item)
  qed
qed

lemma clearSessionState_untracked: "\<not> tracked (clearSessionState s h) s"
  by (simp add: tracked_def clearSessionState_def delete_conv')

lemma tracked_clear_other:
  "tracked (clearSessionState s h) k \<longleftrightarrow> k \<noteq> s \<and> tracked h k"
  by (auto simp: tracked_def clearSessionState_def delete_conv')

lemma event_sessionId_nonempty: "event_sessionId ev = Some s \<Longrightarrow> s \<noteq> []"
  by (auto simp: event_sessionId_def split: jsval.splits if_splits)

lemma handle_removed:
  assumes "event_sessionId ev = Some s" and "field (JObj ev) ''type'' = JStr ''session-removed''"
  shows "handleSyncEvent settle engine now ev h = (clearSessionState s h, [])"
  using assms by (simp add: handleSyncEvent_def)

lemma handle_missing_or_inactive:
  assumes "event_sessionId ev = Some s"
    and "field (JObj ev) ''type'' = JStr ''session-updated''
         \<or> field (JObj ev) ''type'' = JStr ''session-added''"
    and "getNotifiableSession engine s = None"
  shows "handleSyncEvent settle engine now ev h = (clearSessionState s h, [])"
proof (cases "getSession engine s")
  case None
  with assms(1,2) show ?thesis by (auto simp: handleSyncEvent_def)
next
  case (Some sess)
  with assms(3) have "\<not> active sess"
    by (auto simp: getNotifiableSession_def split: if_splits)
  with Some assms(1,2) show ?thesis by (auto simp: handleSyncEvent_def)
qed

lemma handle_no_session_id:
  assumes "event_sessionId ev = None"
  shows "handleSyncEvent settle engine now ev h = (h, [])"
  using assms by (simp add: handleSyncEvent_def)

lemma tracked_check:
  assumes "sid sess \<noteq> k"
  shows "tracked (checkForPermissionNotification now sess h) k \<longleftrightarrow> tracked h k"
  using assms
  by (cases "session_requests sess")
     (auto simp: checkForPermissionNotification_def Let_def tracked_def update_conv'
        map_of_reset simp del: map_of_append)

lemma tracked_sendReady:
  assumes "s \<noteq> k"
  shows "tracked (fst (sendReadyNotification settle engine now s h)) k \<longleftrightarrow> tracked h k"
  using assms
  by (cases "getNotifiableSession engine s")
     (auto simp: sendReadyNotification_def Let_def tracked_def update_conv')

lemma handle_keeps_empty_untracked:
  assumes "\<not> tracked h []"
  shows "\<not> tracked (fst (handleSyncEvent settle engine now ev h)) []"
proof (cases "event_sessionId ev")
  case None
  with assms show ?thesis by (simp add: handle_no_session_id)
next
  case (Some s)
  then have ne: "s \<noteq> []" by (rule event_sessionId_nonempty)
  have c: "\<not> tracked (clearSessionState s h) []"
    using assms by (simp add: tracked_clear_other)
  have k: "\<not> tracked (checkForPermissionNotification now sess h) []"
    if "getSession engine s = Some sess" for sess
    using assms ne getSession_sid [OF that] by (simp add: tracked_check)
  have r: "\<not> tracked (fst (sendReadyNotification settle engine now s h)) []"
    using assms ne by (simp add: tracked_sendReady)
  show ?thesis
    using Some assms c k r
    by (auto simp: handleSyncEvent_def split: option.splits sum.splits)
qed

text \<open>
  C5 (amended). The hub looks at a session once for every notification: when it handles
  a ready event, and when a debounce timer fires. While the engine holds no active
  session under an id (the session is missing or its \<^verbatim>\<open>active\<close> flag is false), no
  notification is started for that id: the handling of an event and the firing of
  timers bring about no call of \<^verbatim>\<open>sendPermissionRequest\<close> or \<^verbatim>\<open>sendReady\<close> for it,
  whatever timers are pending and whatever cooldown state is recorded, and so no call
  is made along a timeline on which the session is never active. Every call that is
  made carries the session that the engine held as active at the check; the first
  channel is called at the time of the check, the further channels not before, each
  after the call before it has settled and with no further look at the engine. So a hub
  with a single channel makes every call at the time of its check. Every
  session-removed event, and every session-added or session-updated event that finds
  the session missing or inactive, makes no call and clears what the hub tracks for the
  session: its pending timer, its recorded request ids and its last ready time. An event
  without a session id is ignored, and nothing is ever tracked under the empty id.
\<close>

theorem inactive_session_suppressed_and_cleared:
  "(getNotifiableSession engine s = None \<longrightarrow>
        (\<forall>tc \<in> set (snd (handleSyncEvent settle engine now ev h)). sid (call_session (snd tc)) \<noteq> s)
      \<and> (\<forall>tc \<in> set (snd (fireTimer settle engine now k h)). sid (call_session (snd tc)) \<noteq> s)
      \<and> (\<forall>tc \<in> set (snd (fireDue settle engine t h)). sid (call_session (snd tc)) \<noteq> s))
   \<and> (getNotifiableSession engine s = None
        \<and> (\<forall>item \<in> set timeline. getNotifiableSession (fst (snd item)) s = None)
      \<longrightarrow> (\<forall>tc \<in> set (snd (run settle engine timeline t h)). sid (call_session (snd tc)) \<noteq> s))
   \<and> (\<forall>tc \<in> set (snd (handleSyncEvent settle engine now ev h)).
          getNotifiableSession engine (sid (call_session (snd tc))) = Some (call_session (snd tc))
          \<and> now \<le> fst tc)
   \<and> (\<forall>tc \<in> set (snd (fireTimer settle engine now k h)).
          getNotifiableSession engine k = Some (call_session (snd tc)) \<and> now \<le> fst tc)
   \<and> (snd (handleSyncEvent settle engine now ev h) \<noteq> []
      \<longrightarrow> fst (hd (snd (handleSyncEvent settle engine now ev h))) = now)
   \<and> (snd (fireTimer settle engine now k h) \<noteq> []
      \<longrightarrow> fst (hd (snd (fireTimer settle engine now k h))) = now)
   \<and> (channels h \<le> 1
      \<longrightarrow> (\<forall>tc \<in> set (snd (handleSyncEvent settle engine now ev h)). fst tc = now)
          \<and> (\<forall>tc \<in> set (snd (fireTimer settle engine now k h)). fst tc = now))
   \<and> (\<forall>tc \<in> set (snd (run settle engine timeline t h)).
          \<exists>e \<in> set (engine # map (\<lambda>item. fst (snd item)) timeline).
            getNotifiableSession e (sid (call_session (snd tc))) = Some (call_session (snd tc)))
   \<and> (event_sessionId ev = Some s \<and> field (JObj ev) ''type'' = JStr ''session-removed''
      \<longrightarrow> handleSyncEvent settle engine now ev h = (clearSessionState s h, [])
          \<and> \<not> tracked (clearSessionState s h) s)
   \<and> (event_sessionId ev = Some s
        \<and> (field (JObj ev) ''type'' = JStr ''session-updated''
             \<or> field (JObj ev) ''type'' = JStr ''session-added'')
        \<and> getNotifiableSession engine s = None
      \<longrightarrow> handleSyncEvent settle engine now ev h = (clearSessionState s h, [])
          \<and> \<not> tracked (clearSessionState s h) s)
   \<and> (event_sessionId ev = None \<longrightarrow> handleSyncEvent settle engine now ev h = (h, []))
   \<and> (\<not> tracked h [] \<longrightarrow> \<not> tracked (fst (handleSyncEvent settle engine now ev h)) [])"
proof (intro conjI impI ballI)
  fix tc
  assume n: "getNotifiableSession engine s = None"
  {
    assume "tc \<in> set (snd (handleSyncEvent settle engine now ev h))"
    from handleSyncEvent_calls(1) [OF this] n show "sid (call_session (snd tc)) \<noteq> s" by auto
  }
  {
    assume "tc \<in> set (snd (fireTimer settle engine now k h))"
    from fireTimer_calls(1) [OF this] getNotifiableSession_sid(1) [OF fireTimer_calls(1) [OF this]] n
    show "sid (call_session (snd tc)) \<noteq> s" by auto
  }
next
  fix tc
  assume n: "getNotifiableSession engine s = None"
    and "tc \<in> set (snd (fireDue settle engine t h))"
  from fireDue_calls [OF this(2)] n show "sid (call_session (snd tc)) \<noteq> s" by auto
next
  fix tc
  assume n: "getNotifiableSession engine s = None
        \<and> (\<forall>item \<in> set timeline. getNotifiableSession (fst (snd item)) s = None)"
    and "tc \<in> set (snd (run settle engine timeline t h))"
  from run_calls [OF this(2)] obtain e
    where "e \<in> set (engine # map (\<lambda>item. fst (snd item)) timeline)"
      and "getNotifiableSession e (sid (call_session (snd tc))) = Some (call_session (snd tc))"
    by blast
  with n show "sid (call_session (snd tc)) \<noteq> s" by auto
next
  fix tc
  assume m: "tc \<in> set (snd (handleSyncEvent settle engine now ev h))"
  from m show "getNotifiableSession engine (sid (call_session (snd tc)))
      = Some (call_session (snd tc))"
    by (rule handleSyncEvent_calls(1))
  from m show "now \<le> fst tc" by (rule handleSyncEvent_calls(2))
next
  fix tc
  assume m: "tc \<in> set (snd (fireTimer settle engine now k h))"
  from m show "getNotifiableSession engine k = Some (call_session (snd tc))"
    by (rule fireTimer_calls(1))
  from m show "now \<le> fst tc" by (rule fireTimer_calls(2))
next
  assume "snd (handleSyncEvent settle engine now ev h) \<noteq> []"
  then show "fst (hd (snd (handleSyncEvent settle engine now ev h))) = now"
    by (rule handleSyncEvent_first)
next
  assume "snd (fireTimer settle engine now k h) \<noteq> []"
  then show "fst (hd (snd (fireTimer settle engine now k h))) = now"
    by (rule fireTimer_first)
next
  fix tc
  assume c: "channels h \<le> 1"
  {
    assume "tc \<in> set (snd (handleSyncEvent settle engine now ev h))"
    with c show "fst tc = now" by (rule handleSyncEvent_single_channel)
  }
  {
    assume "tc \<in> set (snd (fireTimer settle engine now k h))"
    with c show "fst tc = now" by (rule fireTimer_single_channel)
  }
next
  fix tc
  assume "tc \<in> set (snd (run settle engine timeline t h))"
  then show "\<exists>e \<in> set (engine # map (\<lambda>item. fst (snd item)) timeline).
            getNotifiableSession e (sid (call_session (snd tc))) = Some (call_session (snd tc))"
    by (rule run_calls)
next
  assume a: "event_sessionId ev = Some s \<and> field (JObj ev) ''type'' = JStr ''session-removed''"
  then show "handleSyncEvent settle engine now ev h = (clearSessionState s h, [])"
    by (simp add: handle_removed)
  show "\<not> tracked (clearSessionState s h) s" by (rule clearSessionState_untracked)
next
  assume a: "event_sessionId ev = Some s
        \<and> (field (JObj ev) ''type'' = JStr ''session-updated''
             \<or> field (JObj ev) ''type'' = JStr ''session-added'')
        \<and> getNotifiableSession engine s = None"
  then show "handleSyncEvent settle engine now ev h = (clearSessionState s h, [])"
    by (intro handle_missing_or_inactive) simp_all
  show "\<not> tracked (clearSessionState s h) s" by (rule clearSessionState_untracked)
next
  assume "event_sessionId ev = None"
  then show "handleSyncEvent settle engine now ev h = (h, [])" by (rule handle_no_session_id)
next
  assume "\<not> tracked h []"
  then show "\<not> tracked (fst (handleSyncEvent settle engine now ev h)) []"
    by (rule handle_keeps_empty_untracked)
qed

lemma two_channel_ready:
  "handleSyncEvent slow_first_channel [idle_session] 10000 wrapped_ready_event two_channel_hub
     = (two_channel_hub\<lparr>lastReadyNotificationAt := [(''session-1'', 10000)]\<rparr>,
        [(10000, SendReady 0 idle_session), (10010, SendReady 1 idle_session)])"
proof -
  have u: "[0 ..< 2] = [0, Suc 0]" by (simp add: upt_rec)
  show ?thesis
    by (simp add: handle_ready [OF ready_event_facts(1-3)] ready_event_facts(4)
        sendReadyNotification_def Let_def notifyReady_def two_channel_hub_def
        newNotificationHub_def u slow_first_channel_def)
qed

lemma deactivation_facts:
  "event_sessionId session_updated = Some ''session-1''"
  "field (JObj session_updated) ''type'' = JStr ''session-updated''"
  "event_sessionId session_removed = Some ''session-1''"
  "field (JObj session_removed) ''type'' = JStr ''session-removed''"
  "getNotifiableSession [inactive_session] ''session-1'' = None"
  "getSession [inactive_session] ''session-1'' = Some inactive_session"
  by (simp_all add: event_sessionId_def field_def session_removed_def session_updated_def
      getNotifiableSession_def getSession_def inactive_session_def)

lemma two_channel_run:
  "run slow_first_channel [idle_session]
       [(10000, [idle_session], wrapped_ready_event),
        (10005, [inactive_session], session_updated)] 20000 two_channel_hub
     = (two_channel_hub,
        [(10000, SendReady 0 idle_session), (10010, SendReady 1 idle_session)])"
proof -
  let ?h1 = "two_channel_hub\<lparr>lastReadyNotificationAt := [(''session-1'', 10000)]\<rparr>"
  have f0: "fireDue slow_first_channel e t two_channel_hub = (two_channel_hub, [])"
    and f1: "fireDue slow_first_channel e t ?h1 = (?h1, [])" for e t
    by (simp_all add: fireDue_no_timers two_channel_hub_def newNotificationHub_def)
  have c: "clearSessionState ''session-1'' ?h1 = two_channel_hub"
    by (simp add: clearSessionState_def two_channel_hub_def newNotificationHub_def)
  have s2: "handleSyncEvent slow_first_channel [inactive_session] 10005 session_updated ?h1
      = (two_channel_hub, [])"
    using handle_missing_or_inactive [OF deactivation_facts(1) disjI1 [OF deactivation_facts(2)]
        deactivation_facts(5), of slow_first_channel 10005 ?h1]
    by (simp only: c)
  show ?thesis
    by (simp only: run.simps Let_def f0 f1 two_channel_ready s2 prod.case append.simps
        append_Nil2)
qed

theorem inactive_session_suppressed_and_cleared_witness:
  "getNotifiableSession [inactive_session] ''session-1'' = None
   \<and> tracked stale_hub ''session-1''
   \<and> map_of (notificationDebounce stale_hub) ''session-1'' = Some 1500
   \<and> snd (fireDue slow_first_channel [inactive_session] 2000 stale_hub) = []
   \<and> snd (fireTimer slow_first_channel [inactive_session] 1500 ''session-1'' stale_hub) = []
   \<and> snd (handleSyncEvent slow_first_channel [inactive_session] 10000 wrapped_ready_event
             stale_hub) = []
   \<and> snd (run slow_first_channel [inactive_session]
            [(10000, [inactive_session], wrapped_ready_event)] 20000 stale_hub) = []
   \<and> getNotifiableSession [idle_session] ''session-1'' = Some idle_session
   \<and> snd (handleSyncEvent slow_first_channel [idle_session] 10000 wrapped_ready_event
             two_channel_hub)
       = [(10000, SendReady 0 idle_session), (10010, SendReady 1 idle_session)]
   \<and> event_sessionId session_removed = Some ''session-1''
   \<and> field (JObj session_removed) ''type'' = JStr ''session-removed''
   \<and> handleSyncEvent slow_first_channel [idle_session] 1000 session_removed stale_hub
       = (clearSessionState ''session-1'' stale_hub, [])
   \<and> event_sessionId session_updated = Some ''session-1''
   \<and> field (JObj session_updated) ''type'' = JStr ''session-updated''
   \<and> handleSyncEvent slow_first_channel [inactive_session] 1000 session_updated stale_hub
       = (clearSessionState ''session-1'' stale_hub, [])
   \<and> \<not> tracked (clearSessionState ''session-1'' stale_hub) ''session-1''
   \<and> clearSessionState ''session-1'' stale_hub
       = \<lparr>channels = 1, readyCooldownMs = 5000, permissionDebounceMs = 500,
          lastKnownRequests = [], notificationDebounce = [], lastReadyNotificationAt = []\<rparr>"
proof -
  note n = deactivation_facts(5)
  have tr: "tracked stale_hub ''session-1''"
    and tm: "map_of (notificationDebounce stale_hub) ''session-1'' = Some 1500"
    by (simp_all add: tracked_def stale_hub_def)
  note e1 = deactivation_facts(3) and t1 = deactivation_facts(4)
    and e2 = deactivation_facts(1) and t2 = deactivation_facts(2)
  note inst1 = inactive_session_suppressed_and_cleared
    [of "[idle_session]" "''session-1''" slow_first_channel 1000 session_removed stale_hub]
  note inst2 = inactive_session_suppressed_and_cleared
    [of "[inactive_session]" "''session-1''" slow_first_channel 1000 session_updated stale_hub]
  from inst1 e1 t1
  have r1: "handleSyncEvent slow_first_channel [idle_session] 1000 session_removed stale_hub
       = (clearSessionState ''session-1'' stale_hub, [])"
    and u: "\<not> tracked (clearSessionState ''session-1'' stale_hub) ''session-1''"
    by blast+
  from inst2 e2 t2 n
  have r2: "handleSyncEvent slow_first_channel [inactive_session] 1000 session_updated stale_hub
       = (clearSessionState ''session-1'' stale_hub, [])"
    by blast
  have f: "snd (fireDue slow_first_channel [inactive_session] 2000 stale_hub) = []"
    by (simp add: fireDue_eq sendPermissionNotification_def n stale_hub_def)
  have ft: "snd (fireTimer slow_first_channel [inactive_session] 1500 ''session-1'' stale_hub) = []"
    by (simp add: fireTimer_def Let_def sendPermissionNotification_def n)
  have hr: "snd (handleSyncEvent slow_first_channel [inactive_session] 10000 wrapped_ready_event
                   stale_hub) = []"
    by (simp add: handle_ready [OF ready_event_facts(1-3)] sendReadyNotification_def n)
  have rn: "snd (run slow_first_channel [inactive_session]
            [(10000, [inactive_session], wrapped_ready_event)] 20000 stale_hub) = []"
    by (simp add: split_def fireDue_eq sendPermissionNotification_def n stale_hub_def
        handle_ready [OF ready_event_facts(1-3)] sendReadyNotification_def)
  have two: "snd (handleSyncEvent slow_first_channel [idle_session] 10000 wrapped_ready_event
             two_channel_hub)
       = [(10000, SendReady 0 idle_session), (10010, SendReady 1 idle_session)]"
    by (simp add: two_channel_ready)
  have cl: "clearSessionState ''session-1'' stale_hub
       = \<lparr>channels = 1, readyCooldownMs = 5000, permissionDebounceMs = 500,
          lastKnownRequests = [], notificationDebounce = [], lastReadyNotificationAt = []\<rparr>"
    by (simp add: clearSessionState_def stale_hub_def)
  show ?thesis
    using n tr tm f ft hr rn ready_event_facts(4) two e1 t1 r1 e2 t2 r2 u cl by blast
qed

theorem inactive_session_later_channel_counterexample:
  "snd (run slow_first_channel [idle_session]
          [(10000, [idle_session], wrapped_ready_event),
           (10005, [inactive_session], session_updated)] 20000 two_channel_hub)
     = [(10000, SendReady 0 idle_session), (10010, SendReady 1 idle_session)]
   \<and> sid idle_session = ''session-1''
   \<and> engine_at [idle_session]
          [(10000, [idle_session], wrapped_ready_event),
           (10005, [inactive_session], session_updated)] 10010 = [inactive_session]
   \<and> getSession [inactive_session] ''session-1'' = Some inactive_session
   \<and> active inactive_session = False"
proof -
  have a: "snd (run slow_first_channel [idle_session]
          [(10000, [idle_session], wrapped_ready_event),
           (10005, [inactive_session], session_updated)] 20000 two_channel_hub)
     = [(10000, SendReady 0 idle_session), (10010, SendReady 1 idle_session)]"
    by (simp only: two_channel_run snd_conv)
  have b: "sid idle_session = ''session-1''" by (simp add: idle_session_def)
  have c: "engine_at [idle_session]
          [(10000, [idle_session], wrapped_ready_event),
           (10005, [inactive_session], session_updated)] 10010 = [inactive_session]"
    by simp
  have d: "active inactive_session = False" by (simp add: inactive_session_def)
  show ?thesis by (intro conjI a b c deactivation_facts(6) d)
qed























end
